theory Spec2Isabelle
  imports Main "HOL-Library.Sublist" "HOL-Library.Multiset"
begin

section \<open>Data model\<close>

text \<open>
  The program is \<^verbatim>\<open>src/clang-format-hook.cpp\<close>. Strings are byte lists; a
  \<^verbatim>\<open>std::filesystem::path\<close> is modelled by its native string. A C string
  (\<^verbatim>\<open>const char *\<close>) is read up to its first NUL byte.
\<close>

type_synonym path = string

definition NUL :: char where
  "NUL = CHR 0x00"

definition newline :: char where
  "newline = CHR 0x0A"

definition c_str :: "string \<Rightarrow> string" where
  "c_str s = takeWhile (\<lambda>c. c \<noteq> NUL) s"

text \<open>\<^verbatim>\<open>struct CmdResult { std::string output; int return_status; }\<close>\<close>

text \<open>(\<open>output\<close> is written \<open>output'\<close>: the plain name is reserved.)\<close>

record CmdResult =
  output' :: string
  return_status :: int

text \<open>\<^verbatim>\<open>struct Settings\<close>, with its default member initialiser.\<close>

record Settings =
  clang_format_exe :: string
  inputs :: "string list"

definition default_Settings :: Settings where
  "default_Settings = \<lparr>clang_format_exe = ''clang-format'', inputs = []\<rparr>"

text \<open>
  The exceptions of a run: \<^verbatim>\<open>std::runtime_error\<close>, which the program throws itself,
  and \<^verbatim>\<open>std::filesystem::filesystem_error\<close>, which \<^verbatim>\<open>is_directory\<close> and
  \<^verbatim>\<open>directory_iterator\<close> throw when the file system reports an error. Nothing in the
  program catches either.
\<close>

datatype error = RuntimeError string | FilesystemError string

text \<open>
  A child process as \<^verbatim>\<open>popen\<close>/\<^verbatim>\<open>pclose\<close> show it: the bytes it writes to
  its standard output, and the status \<^verbatim>\<open>pclose\<close> returns for it.
\<close>

record process =
  stdout :: string
  status :: int

text \<open>
  The operating system, as far as the program queries it. The program never writes to the
  file system, so each query is a function of its argument.
  \<^item> \<open>is_directory\<close>: \<^verbatim>\<open>std::filesystem::is_directory(p)\<close>, the overload that throws:
    \<open>Inr False\<close> also where nothing exists at \<open>p\<close>, \<open>Inl\<close> the exception on any other
    error (too many levels of symbolic links, no permission);
  \<^item> \<open>directory_iterator\<close>: the paths of the entries of a directory, in iteration order,
    or the exception thrown when the directory cannot be opened or read;
  \<^item> \<open>open_read\<close>: the content of a file an \<^verbatim>\<open>std::ifstream\<close> could open,
    \<open>None\<close> when \<^verbatim>\<open>is_open()\<close> is false;
  \<^item> \<open>popen\<close>: the process started for a command line, \<open>None\<close> when
    \<^verbatim>\<open>popen\<close> returns a null stream;
  \<^item> \<open>indeterminate\<close>: the value an uninitialised \<^verbatim>\<open>int\<close> happens to hold;
  \<^item> \<open>env_POSIXLY_CORRECT\<close>: whether the environment variable \<^verbatim>\<open>POSIXLY_CORRECT\<close> is
    set, which \<^verbatim>\<open>getopt_long\<close> reads.
\<close>

record os =
  is_directory :: "path \<Rightarrow> error + bool"
  directory_iterator :: "path \<Rightarrow> error + path list"
  open_read :: "path \<Rightarrow> string option"
  popen :: "string \<Rightarrow> process option"
  indeterminate :: int
  env_POSIXLY_CORRECT :: bool

text \<open>
  What a run does, in program order: its queries to the operating system, its writes to
  \<^verbatim>\<open>std::cout\<close> and \<^verbatim>\<open>std::cerr\<close>, the assignment
  \<^verbatim>\<open>inputs_need_formatting = true\<close>, and the acquisition and release of
  \<^verbatim>\<open>output_mutex\<close>.
\<close>

datatype event =
    IsDirectory path
  | DirectoryIterator path
  | OpenFile path
  | Popen string
  | Cout string
  | Cerr string
  | AssignFlag
  | Lock
  | Unlock

section \<open>std::to_string(int)\<close>

function digits :: "nat \<Rightarrow> string" where
  "digits n = (if n < 10 then [''0123456789'' ! n] else digits (n div 10) @ [''0123456789'' ! (n mod 10)])"
  by pat_completeness auto
termination
  by (relation "measure (\<lambda>n. n)") auto

declare digits.simps [simp del]

definition to_string :: "int \<Rightarrow> string" where
  "to_string i = (if i < 0 then CHR ''-'' # digits (nat (- i)) else digits (nat i))"

section \<open>External Tool Runner\<close>

text \<open>
  \<^verbatim>\<open>std::memcpy(cmd.data() + off, src, n)\<close> on the buffer \<open>cmd\<close>: the \<open>n\<close> bytes
  from \<open>off\<close> are replaced by \<open>src\<close>.
\<close>

definition memcpy :: "char list \<Rightarrow> nat \<Rightarrow> string \<Rightarrow> char list" where
  "memcpy cmd off src = take off cmd @ src @ drop (off + length src) cmd"

text \<open>The first loop of \<^verbatim>\<open>runCmdForOutput\<close>: the sum of the token sizes.\<close>

fun sum_sizes :: "string list \<Rightarrow> nat \<Rightarrow> nat" where
  "sum_sizes [] cmd_size = cmd_size"
| "sum_sizes (arg # args) cmd_size = sum_sizes args (cmd_size + length arg)"

text \<open>
  The second loop: token \<open>i\<close> is copied at \<open>cmd_offset\<close>, and a space is written
  behind it when \<open>i + 1 < args.size()\<close>, that is when more tokens follow.
\<close>

fun copy_args :: "string list \<Rightarrow> nat \<Rightarrow> char list \<Rightarrow> char list" where
  "copy_args [] cmd_offset cmd = cmd"
| "copy_args (arg # args) cmd_offset cmd =
     (let cmd1 = memcpy cmd cmd_offset arg;
          cmd_offset1 = cmd_offset + length arg
      in if args \<noteq> []
         then copy_args args (cmd_offset1 + 1) (cmd1[cmd_offset1 := CHR '' ''])
         else copy_args args cmd_offset1 cmd1)"

text \<open>
  The buffer \<^verbatim>\<open>std::vector<char> cmd(cmd_size + 1)\<close> as it is when \<^verbatim>\<open>popen\<close> is
  called (for a non-empty \<open>args\<close>): zero-initialised, filled by the loop, its last
  element set to 0.
\<close>

definition build_cmd :: "string list \<Rightarrow> char list" where
  "build_cmd args =
     (let cmd_size = sum_sizes args 0 + (length args - 1);
          cmd = copy_args args 0 (replicate (cmd_size + 1) NUL)
      in cmd[length cmd - 1 := NUL])"

text \<open>
  \<^verbatim>\<open>fgets(buffer, n, pipe)\<close> on the bytes still to come: at most \<open>n - 1\<close> bytes,
  ending behind the first newline.
\<close>

fun fgets :: "nat \<Rightarrow> string \<Rightarrow> string" where
  "fgets n [] = []"
| "fgets n (c # cs) =
     (if n \<le> 1 then [] else if c = newline then [c] else c # fgets (n - 1) cs)"

lemma fgets_length: "length (fgets n s) \<le> length s"
  by (induction n s rule: fgets.induct) auto

lemma fgets_nonempty: "1 < n \<Longrightarrow> s \<noteq> [] \<Longrightarrow> fgets n s \<noteq> []"
  by (cases s) auto

text \<open>
  The read loop: \<^verbatim>\<open>while (fgets(buffer, sizeof(buffer), pipe) != 0) res.output += buffer\<close>.
  \<^verbatim>\<open>fgets\<close> returns null at the end of the stream; \<^verbatim>\<open>+=\<close> appends the buffer
  as a C string.
\<close>

function read_output :: "string \<Rightarrow> string \<Rightarrow> string" where
  "read_output s out =
     (if s = [] then out
      else let buffer = fgets 1024 s
           in read_output (drop (length buffer) s) (out @ c_str buffer))"
  by pat_completeness auto
termination
proof (relation "measure (\<lambda>(s, out). length s)")
  show "wf (measure (\<lambda>(s, out). length s))" by simp
next
  fix s out :: string and buffer
  assume "s \<noteq> []" and "buffer = fgets 1024 s"
  then have "buffer \<noteq> []" by (simp add: fgets_nonempty)
  with \<open>s \<noteq> []\<close> show "((drop (length buffer) s, out @ c_str buffer), (s, out)) \<in> measure (\<lambda>(s, out). length s)"
    by simp
qed

declare read_output.simps [simp del]

text \<open>
  \<^verbatim>\<open>runCmdForOutput\<close>. With no tokens it returns the default-initialised result, whose
  \<open>return_status\<close> was never assigned. A null stream throws.
\<close>

definition runCmdForOutput :: "os \<Rightarrow> string list \<Rightarrow> event list \<times> (error + CmdResult)" where
  "runCmdForOutput sys args =
     (if args = [] then ([], Inr \<lparr>output' = [], return_status = indeterminate sys\<rparr>)
      else let cmd = build_cmd args
           in case popen sys (c_str cmd) of
                None \<Rightarrow> ([Popen (c_str cmd)], Inl (RuntimeError (''Unable to run '' @ c_str cmd)))
              | Some p \<Rightarrow>
                  ([Popen (c_str cmd)],
                   Inr \<lparr>output' = read_output (stdout p) [], return_status = status p\<rparr>))"

section \<open>Format-Diff Checker\<close>

definition getFileFormatDiff :: "os \<Rightarrow> path \<Rightarrow> string \<Rightarrow> event list \<times> (error + string option)" where
  "getFileFormatDiff sys file exe =
     (case open_read sys file of
        None \<Rightarrow> ([OpenFile file], Inl (RuntimeError (''Unable to open src file '' @ file)))
      | Some file_contents \<Rightarrow>
          (case runCmdForOutput sys [exe, file] of
             (evs, Inl e) \<Rightarrow> (OpenFile file # evs, Inl e)
           | (evs, Inr res) \<Rightarrow>
               (OpenFile file # evs,
                if return_status res \<noteq> 0
                then Inr (Some (''Got return code '' @ to_string (return_status res) @
                                '' when executing '' @ exe @ '' '' @ c_str file))
                else if file_contents \<noteq> output' res
                then Inr (Some (c_str file @ '' changes when formatted.''))
                else Inr None)))"

section \<open>File Discovery\<close>

text \<open>
  \<^verbatim>\<open>path::filename()\<close> and \<^verbatim>\<open>path::extension()\<close> of the C++ standard library: the
  extension is the part of the file name from its last period on; the names \<open>.\<close> and
  \<open>..\<close> have none, and neither has a name whose only period is its first character.
\<close>

definition filename :: "path \<Rightarrow> string" where
  "filename p = rev (takeWhile (\<lambda>c. c \<noteq> CHR ''/'') (rev p))"

definition extension :: "path \<Rightarrow> string" where
  "extension p =
     (let f = filename p;
          after_period = rev (takeWhile (\<lambda>c. c \<noteq> CHR ''.'') (rev f))
      in if f = ''.'' \<or> f = ''..'' then []
         else if CHR ''.'' \<notin> set f then []
         else if length after_period + 1 = length f then []
         else CHR ''.'' # after_period)"

definition has_extension :: "path \<Rightarrow> bool" where
  "has_extension p = (extension p \<noteq> [])"

text \<open>
  The work-list loop of \<^verbatim>\<open>listSrcFiles\<close>. \<^verbatim>\<open>to_process.back()\<close> is the last
  element; the children of a directory are pushed behind it. An exception of
  \<^verbatim>\<open>is_directory\<close> or of \<^verbatim>\<open>directory_iterator\<close> leaves the function. On a file system
  where the walk never ends the loop has no result.
\<close>

partial_function (option) listSrcFiles_loop ::
  "os \<Rightarrow> path list \<Rightarrow> path list \<Rightarrow> event list \<Rightarrow>
   (event list \<times> (error + path list)) option" where
  "listSrcFiles_loop sys to_process src_files evs =
     (if to_process = [] then Some (evs, Inr src_files)
      else let current = last to_process;
               to_process1 = butlast to_process;
               evs1 = evs @ [IsDirectory current]
           in case is_directory sys current of
                Inl e \<Rightarrow> Some (evs1, Inl e)
              | Inr dir \<Rightarrow>
                  if dir
                  then (case directory_iterator sys current of
                          Inl e \<Rightarrow> Some (evs1 @ [DirectoryIterator current], Inl e)
                        | Inr children \<Rightarrow>
                            listSrcFiles_loop sys (to_process1 @ children)
                              src_files (evs1 @ [DirectoryIterator current]))
                  else if has_extension current
                  then (let ext = extension current
                        in if ext = ''.cpp'' \<or> ext = ''.h''
                           then listSrcFiles_loop sys to_process1 (src_files @ [current]) evs1
                           else listSrcFiles_loop sys to_process1 src_files evs1)
                  else listSrcFiles_loop sys to_process1 src_files evs1)"

declare listSrcFiles_loop.simps [code]

definition listSrcFiles :: "os \<Rightarrow> path \<Rightarrow> (event list \<times> (error + path list)) option" where
  "listSrcFiles sys root = listSrcFiles_loop sys [root] [] []"

section \<open>Command line\<close>

text \<open>\<^verbatim>\<open>std::setw(w) << std::right << s\<close>: \<open>s\<close> padded with spaces on the left to width \<open>w\<close>.\<close>

definition setw_right :: "nat \<Rightarrow> string \<Rightarrow> string" where
  "setw_right w s = replicate (w - length s) CHR '' '' @ s"

definition printHelp :: "string \<Rightarrow> event list" where
  "printHelp exe_name =
     [Cout (''Usage: '' @ exe_name @ '' [options] <inputs>'' @ [newline]),
      Cout (''Checks the given inputs for code style changes'' @ [newline]),
      Cout [newline],
      Cout (''Options:'' @ [newline]),
      Cout (setw_right 20 ''-c, --clang-format'' @ ''    '' @
            ''The clang-format executable to use'' @ [newline])]"

text \<open>
  GNU \<^verbatim>\<open>getopt_long\<close>, as \<^verbatim>\<open>parseSettings\<close> calls it: option string \<^verbatim>\<open>":c:"\<close>
  (a leading colon: no messages of its own, and \<^verbatim>\<open>':'\<close> for a missing argument), the
  one long option \<^verbatim>\<open>clang-format\<close> with a required argument and value \<^verbatim>\<open>'c'\<close>. The
  state is the one the library keeps between calls.

  The ordering is fixed at the first call: \<open>REQUIRE_ORDER\<close> (the options end at the first
  argument that is not one) when \<^verbatim>\<open>POSIXLY_CORRECT\<close> is set in the environment, else
  \<open>PERMUTE\<close> (the arguments that are not options are moved behind the options). The third
  ordering of the library is chosen only by an option string that starts with \<^verbatim>\<open>'-'\<close>.
\<close>

datatype getopt_ordering = REQUIRE_ORDER | PERMUTE

record getopt_data =
  argv :: "string list"
  optind :: nat
  optarg :: string
  nextchar :: string
  first_nonopt :: nat
  last_nonopt :: nat
  ordering' :: getopt_ordering

definition optstring :: string where
  "optstring = '':c:''"

definition long_name :: string where
  "long_name = ''clang-format''"

text \<open>\<^verbatim>\<open>argv[optind][0] != '-' || argv[optind][1] == '\0'\<close>\<close>

definition NONOPTION_P :: "string \<Rightarrow> bool" where
  "NONOPTION_P a = (case a of [] \<Rightarrow> True | c # cs \<Rightarrow> c \<noteq> CHR ''-'' \<or> cs = [])"

text \<open>
  \<^verbatim>\<open>exchange\<close>: the arguments skipped as non-options, \<open>[first_nonopt, last_nonopt)\<close>,
  change places with the options behind them, \<open>[last_nonopt, optind)\<close>.
\<close>

definition exchange :: "getopt_data \<Rightarrow> getopt_data" where
  "exchange d =
     (let bottom = first_nonopt d; middle = last_nonopt d; top = optind d; a = argv d
      in d\<lparr>argv := take bottom a @ take (top - middle) (drop middle a) @
                    take (middle - bottom) (drop bottom a) @ drop top a,
           first_nonopt := first_nonopt d + (optind d - last_nonopt d),
           last_nonopt := optind d\<rparr>)"

text \<open>\<^verbatim>\<open>while (optind < argc && NONOPTION_P) optind++\<close>\<close>

function skip_nonoptions :: "string list \<Rightarrow> nat \<Rightarrow> nat" where
  "skip_nonoptions a i =
     (if i < length a \<and> NONOPTION_P (a ! i) then skip_nonoptions a (i + 1) else i)"
  by pat_completeness auto
termination
  by (relation "measure (\<lambda>(a, i). length a - i)") auto

declare skip_nonoptions.simps [simp del]

text \<open>
  \<^verbatim>\<open>process_long_option\<close>, entered with \<open>nextchar\<close> behind the two dashes. The name
  ends at \<^verbatim>\<open>'='\<close>; it matches when it is \<open>clang-format\<close> or an abbreviation of it.
\<close>

definition process_long_option :: "getopt_data \<Rightarrow> int \<times> getopt_data" where
  "process_long_option d =
     (let name = takeWhile (\<lambda>c. c \<noteq> CHR ''='') (nextchar d);
          nameend = dropWhile (\<lambda>c. c \<noteq> CHR ''='') (nextchar d)
      in if \<not> prefix name long_name
         then (of_char CHR ''?'', d\<lparr>nextchar := [], optind := optind d + 1\<rparr>)
         else let d1 = d\<lparr>optind := optind d + 1, nextchar := []\<rparr>
              in if nameend \<noteq> [] then (of_char CHR ''c'', d1\<lparr>optarg := tl nameend\<rparr>)
                 else if optind d1 < length (argv d1)
                 then (of_char CHR ''c'',
                       d1\<lparr>optarg := argv d1 ! optind d1, optind := optind d1 + 1\<rparr>)
                 else (of_char CHR '':'', d1))"

text \<open>The next short option character, entered with a non-empty \<open>nextchar\<close>.\<close>

definition short_option :: "getopt_data \<Rightarrow> int \<times> getopt_data" where
  "short_option d =
     (let c = hd (nextchar d);
          d1 = d\<lparr>nextchar := tl (nextchar d)\<rparr>;
          d2 = (if nextchar d1 = [] then d1\<lparr>optind := optind d1 + 1\<rparr> else d1)
      in if c \<notin> set optstring \<or> c = CHR '':'' \<or> c = CHR '';''
         then (of_char CHR ''?'', d2)
         else if nextchar d2 \<noteq> []
         then (of_char c, d2\<lparr>optarg := nextchar d2, optind := optind d2 + 1, nextchar := []\<rparr>)
         else if optind d2 = length (argv d2)
         then (of_char CHR '':'', d2\<lparr>nextchar := []\<rparr>)
         else (of_char c, d2\<lparr>optarg := argv d2 ! optind d2, optind := optind d2 + 1,
                               nextchar := []\<rparr>))"

text \<open>
  The start of a call with an empty \<open>nextchar\<close>. Under \<open>PERMUTE\<close>, options processed
  behind skipped non-options are moved before them, and the non-options that follow are
  skipped; under \<open>REQUIRE_ORDER\<close> nothing is moved or skipped.
\<close>

definition permute_skip :: "getopt_data \<Rightarrow> getopt_data" where
  "permute_skip d0 =
     (let d1 = d0\<lparr>last_nonopt := min (last_nonopt d0) (optind d0),
                  first_nonopt := min (first_nonopt d0) (optind d0)\<rparr>
      in if ordering' d1 = PERMUTE
         then (let d2 = (if first_nonopt d1 \<noteq> last_nonopt d1 \<and> last_nonopt d1 \<noteq> optind d1
                         then exchange d1
                         else if last_nonopt d1 \<noteq> optind d1
                         then d1\<lparr>first_nonopt := optind d1\<rparr>
                         else d1);
                   d3 = d2\<lparr>optind := skip_nonoptions (argv d2) (optind d2)\<rparr>
               in d3\<lparr>last_nonopt := optind d3\<rparr>)
         else d1)"

text \<open>The argument \<^verbatim>\<open>--\<close> ends the options: everything behind it is a non-option.\<close>

definition double_dash :: "getopt_data \<Rightarrow> getopt_data" where
  "double_dash d =
     (let argc = length (argv d)
      in if optind d \<noteq> argc \<and> argv d ! optind d = ''--''
         then (let d1 = d\<lparr>optind := optind d + 1\<rparr>;
                   d2 = (if first_nonopt d1 \<noteq> last_nonopt d1 \<and> last_nonopt d1 \<noteq> optind d1
                         then exchange d1
                         else if first_nonopt d1 = last_nonopt d1
                         then d1\<lparr>first_nonopt := optind d1\<rparr>
                         else d1)
               in d2\<lparr>last_nonopt := argc, optind := argc\<rparr>)
         else d)"

text \<open>
  One call. At the end of the arguments it returns -1, with \<open>optind\<close> at the first of the
  non-options that were skipped. At an argument that is not an option (which \<open>PERMUTE\<close>
  has skipped) \<open>REQUIRE_ORDER\<close> returns -1 and leaves \<open>optind\<close> there; the library's code
  for the third ordering follows.
\<close>

definition getopt_long :: "getopt_data \<Rightarrow> int \<times> getopt_data" where
  "getopt_long d0 =
     (let argc = length (argv d0)
      in if argc < 1 then (- 1, d0)
         else if nextchar d0 = []
         then (let d = double_dash (permute_skip d0)
               in if optind d = argc
                  then (- 1, if first_nonopt d \<noteq> last_nonopt d
                             then d\<lparr>optind := first_nonopt d\<rparr> else d)
                  else if NONOPTION_P (argv d ! optind d)
                  then (if ordering' d = REQUIRE_ORDER then (- 1, d)
                        else (1, d\<lparr>optarg := argv d ! optind d, optind := optind d + 1\<rparr>))
                  else if argv d ! optind d ! 1 = CHR ''-''
                  then process_long_option (d\<lparr>nextchar := drop 2 (argv d ! optind d)\<rparr>)
                  else short_option (d\<lparr>nextchar := drop 1 (argv d ! optind d)\<rparr>))
         else short_option d0)"

text \<open>
  The state before the first call: \<open>optind\<close> is 1, nothing has been skipped, and the
  ordering follows the environment.
\<close>

definition getopt_init :: "bool \<Rightarrow> string list \<Rightarrow> getopt_data" where
  "getopt_init posixly_correct args =
     \<lparr>argv = args, optind = 1, optarg = [], nextchar = [], first_nonopt = 1, last_nonopt = 1,
      ordering' = (if posixly_correct then REQUIRE_ORDER else PERMUTE)\<rparr>"

text \<open>
  The \<^verbatim>\<open>while\<close> loop of \<^verbatim>\<open>parseSettings\<close>. \<open>Inl n\<close> is a call of
  \<^verbatim>\<open>exit(n)\<close>; a value no \<^verbatim>\<open>case\<close> matches goes round the loop again.
\<close>

partial_function (option) parse_loop ::
  "getopt_data \<Rightarrow> Settings \<Rightarrow> (event list \<times> (int + getopt_data \<times> Settings)) option" where
  "parse_loop d settings =
     (case getopt_long d of
        (o', d') \<Rightarrow>
          if o' \<ge> 0 then
            (if o' = of_char CHR ''c''
             then parse_loop d' (settings\<lparr>clang_format_exe := optarg d'\<rparr>)
             else if o' = of_char CHR '':''
             then Some (Cerr (''The option '' @ argv d' ! (optind d' - 1) @
                              '' requires an argument'' @ [newline]) #
                        printHelp (argv d' ! 0), Inl 1)
             else if o' = of_char CHR ''?''
             then Some (Cerr (''Unknown options '' @ argv d' ! (optind d' - 1) @ [newline]) #
                        printHelp (argv d' ! 0), Inl 1)
             else parse_loop d' settings)
          else Some ([], Inr (d', settings)))"

declare parse_loop.simps [code]

text \<open>
  The \<^verbatim>\<open>for\<close> loop behind it: \<^verbatim>\<open>argv[optind]\<close> to \<^verbatim>\<open>argv[argc - 1]\<close> are the
  inputs. The first argument of the model says whether \<^verbatim>\<open>POSIXLY_CORRECT\<close> is set.
\<close>

definition parseSettings ::
  "bool \<Rightarrow> string list \<Rightarrow> (event list \<times> (int + Settings)) option" where
  "parseSettings posixly_correct args =
     (case parse_loop (getopt_init posixly_correct args) default_Settings of
        None \<Rightarrow> None
      | Some (evs, Inl n) \<Rightarrow> Some (evs, Inl n)
      | Some (evs, Inr (d, settings)) \<Rightarrow>
          Some (evs, Inr (settings\<lparr>inputs := inputs settings @ drop (optind d) (argv d)\<rparr>)))"

section \<open>Parallel Aggregator\<close>

text \<open>
  \<^verbatim>\<open>std::cout << path\<close> writes a path quoted: between double quotes, with a backslash
  before every double quote and backslash.
\<close>

definition quoted :: "string \<Rightarrow> string" where
  "quoted s =
     CHR 0x22 # concat (map (\<lambda>c. if c = CHR 0x22 \<or> c = CHR 0x5C then [CHR 0x5C, c] else [c]) s) @
     [CHR 0x22]"

text \<open>The lambda \<^verbatim>\<open>printDiff\<close>: the two writes happen while the lock guard lives.\<close>

definition printDiff :: "path \<Rightarrow> string \<Rightarrow> event list" where
  "printDiff p diff =
     [Lock,
      Cout (''File '' @ quoted p @ '' needs formatting'' @ [newline]),
      Cout (diff @ [newline]),
      Unlock]"

text \<open>
  The body of the \<^verbatim>\<open>for\<close> loop of \<^verbatim>\<open>main\<close> for one file: the events of the
  iteration, and either the exception that leaves it or whether it assigned the flag.
\<close>

definition check_file :: "os \<Rightarrow> string \<Rightarrow> path \<Rightarrow> event list \<times> (error + bool)" where
  "check_file sys exe input =
     (case getFileFormatDiff sys input exe of
        (evs, Inl e) \<Rightarrow> (evs, Inl e)
      | (evs, Inr None) \<Rightarrow> (evs, Inr False)
      | (evs, Inr (Some diff)) \<Rightarrow> (evs @ AssignFlag # printDiff input diff, Inr True))"

text \<open>
  The loop over \<open>input_files\<close>, one iteration after the other in index order (the order
  of a build without OpenMP). An exception that leaves an iteration ends the loop.
\<close>

fun check_files ::
  "os \<Rightarrow> string \<Rightarrow> path list \<Rightarrow> bool \<Rightarrow> event list \<Rightarrow> event list \<times> (error + bool)" where
  "check_files sys exe [] inputs_need_formatting evs = (evs, Inr inputs_need_formatting)"
| "check_files sys exe (input # rest) inputs_need_formatting evs =
     (case check_file sys exe input of
        (e, Inl err) \<Rightarrow> (evs @ e, Inl err)
      | (e, Inr assigned) \<Rightarrow>
          check_files sys exe rest (if assigned then True else inputs_need_formatting) (evs @ e))"

text \<open>
  The first loop of \<^verbatim>\<open>main\<close>: the files of every input, in the order of the inputs.
  An exception of \<^verbatim>\<open>listSrcFiles\<close> leaves the loop.
\<close>

fun discover ::
  "os \<Rightarrow> string list \<Rightarrow> path list \<Rightarrow> event list \<Rightarrow>
   (event list \<times> (error + path list)) option" where
  "discover sys [] input_files evs = Some (evs, Inr input_files)"
| "discover sys (p # ps) input_files evs =
     (case listSrcFiles sys p of
        None \<Rightarrow> None
      | Some (e, Inl err) \<Rightarrow> Some (evs @ e, Inl err)
      | Some (e, Inr files) \<Rightarrow> discover sys ps (input_files @ files) (evs @ e))"

text \<open>
  How the process ends: with an exit code (from \<^verbatim>\<open>exit\<close> or the return of
  \<^verbatim>\<open>main\<close>), or in \<^verbatim>\<open>std::terminate\<close> on an exception nobody catches.
\<close>

datatype outcome = ExitCode int | Terminate error

definition main :: "os \<Rightarrow> string list \<Rightarrow> (event list \<times> outcome) option" where
  "main sys args =
     (case parseSettings (env_POSIXLY_CORRECT sys) args of
        None \<Rightarrow> None
      | Some (evs0, Inl n) \<Rightarrow> Some (evs0, ExitCode n)
      | Some (evs0, Inr settings) \<Rightarrow>
          (case discover sys (inputs settings) [] evs0 of
             None \<Rightarrow> None
           | Some (evs1, Inl err) \<Rightarrow> Some (evs1, Terminate err)
           | Some (evs1, Inr input_files) \<Rightarrow>
               (case check_files sys (clang_format_exe settings) input_files False evs1 of
                  (evs2, Inl err) \<Rightarrow> Some (evs2, Terminate err)
                | (evs2, Inr inputs_need_formatting) \<Rightarrow>
                    Some (evs2, ExitCode (if inputs_need_formatting then 2 else 0)))))"

section \<open>The state of getopt between calls\<close>

text \<open>
  What holds of the state whenever \<^verbatim>\<open>parseSettings\<close> calls \<^verbatim>\<open>getopt_long\<close>: the
  skipped non-options lie before \<open>optind\<close>, \<open>optind\<close> is within the arguments, and no
  option group is half read.
\<close>

definition getopt_inv :: "getopt_data \<Rightarrow> bool" where
  "getopt_inv d \<longleftrightarrow>
     1 \<le> first_nonopt d \<and> first_nonopt d \<le> last_nonopt d \<and> last_nonopt d \<le> optind d \<and>
     optind d \<le> length (argv d) \<and> nextchar d = []"

text \<open>The state behind the first two stages of a call.\<close>

definition at_option :: "getopt_data \<Rightarrow> getopt_data \<Rightarrow> bool" where
  "at_option d0 d \<longleftrightarrow>
     length (argv d) = length (argv d0) \<and> argv d ! 0 = argv d0 ! 0 \<and>
     ordering' d = ordering' d0 \<and>
     1 \<le> first_nonopt d \<and> first_nonopt d \<le> last_nonopt d \<and> last_nonopt d \<le> optind d \<and>
     optind d0 \<le> optind d \<and> optind d \<le> length (argv d) \<and> nextchar d = [] \<and>
     (ordering' d = PERMUTE \<and> optind d < length (argv d) \<longrightarrow>
        \<not> NONOPTION_P (argv d ! optind d))"

text \<open>
  The arguments still to be scanned at the start of a call, behind the non-options that
  \<open>PERMUTE\<close> skips.
\<close>

definition to_scan :: "getopt_data \<Rightarrow> string list" where
  "to_scan d =
     (if ordering' d = PERMUTE then dropWhile NONOPTION_P (drop (optind d) (argv d))
      else drop (optind d) (argv d))"

section \<open>Unknown options and missing values\<close>

text \<open>
  The command line as its user reads it. An option is an argument that starts with
  \<^verbatim>\<open>-\<close> and is longer than that; \<^verbatim>\<open>--\<close> ends the options. The option \<open>a\<close>, with
  \<open>rest\<close> behind it, is
  \<^item> unknown, when it starts with \<^verbatim>\<open>--\<close> and its name (up to a \<^verbatim>\<open>=\<close>) is neither
    \<^verbatim>\<open>clang-format\<close> nor the beginning of it, or starts with one \<^verbatim>\<open>-\<close> and another
    letter than \<^verbatim>\<open>c\<close>;
  \<^item> missing its value, when the value is neither attached (\<^verbatim>\<open>--clang-format=v\<close>,
    \<^verbatim>\<open>-cv\<close>) nor the next argument, there being none;
  \<^item> otherwise well formed, and the scan goes on behind it and its value.
\<close>

datatype fault = UnknownOption | MissingValue

definition option_at :: "string \<Rightarrow> string list \<Rightarrow> fault + string list" where
  "option_at a rest =
     (if a ! 1 = CHR ''-''
      then (if \<not> prefix (takeWhile (\<lambda>c. c \<noteq> CHR ''='') (drop 2 a)) long_name
            then Inl UnknownOption
            else if CHR ''='' \<in> set (drop 2 a) then Inr rest
            else (case rest of [] \<Rightarrow> Inl MissingValue | v # rest' \<Rightarrow> Inr rest'))
      else (if a ! 1 \<noteq> CHR ''c'' then Inl UnknownOption
            else if drop 2 a \<noteq> [] then Inr rest
            else (case rest of [] \<Rightarrow> Inl MissingValue | v # rest' \<Rightarrow> Inr rest')))"

lemma option_at_length: "option_at a rest = Inr rest' \<Longrightarrow> length rest' \<le> length rest"
  by (auto simp: option_at_def split: if_splits list.splits)

text \<open>
  The first fault of a command line (the arguments behind the program name), if it has
  one, and the argument at fault. With \<^verbatim>\<open>POSIXLY_CORRECT\<close> set the options end at the
  first argument that is not an option; without it, options are looked for among all
  arguments up to \<^verbatim>\<open>--\<close>.
\<close>

function scan_options :: "bool \<Rightarrow> string list \<Rightarrow> (fault \<times> string) option" where
  "scan_options posixly_correct [] = None"
| "scan_options posixly_correct (a # rest) =
     (if a = ''--'' then None
      else if NONOPTION_P a
      then (if posixly_correct then None else scan_options posixly_correct rest)
      else (case option_at a rest of
              Inl f \<Rightarrow> Some (f, a)
            | Inr rest' \<Rightarrow> scan_options posixly_correct rest'))"
  by pat_completeness auto
termination
  by (relation "measure (\<lambda>(posixly_correct, args). length args)")
     (auto dest: option_at_length)

declare scan_options.simps(2) [simp del]

text \<open>A short option with further letters behind it, as \<^verbatim>\<open>-xc\<close>.\<close>

definition short_group :: "string \<Rightarrow> bool" where
  "short_group a \<longleftrightarrow> a ! 1 \<noteq> CHR ''-'' \<and> drop 2 a \<noteq> []"

text \<open>The line \<^verbatim>\<open>parseSettings\<close> writes to \<^verbatim>\<open>std::cerr\<close> before it exits.\<close>

definition option_error :: "bool \<Rightarrow> string \<Rightarrow> string" where
  "option_error missing a =
     (if missing then ''The option '' @ a @ '' requires an argument'' @ [newline]
      else ''Unknown options '' @ a @ [newline])"

text \<open>The text of \<^verbatim>\<open>printHelp\<close>, as one string.\<close>

definition usage :: "string \<Rightarrow> string" where
  "usage exe_name =
     ''Usage: '' @ exe_name @ '' [options] <inputs>'' @ [newline] @
     ''Checks the given inputs for code style changes'' @ [newline] @
     [newline] @
     ''Options:'' @ [newline] @
     ''  -c, --clang-format    The clang-format executable to use'' @ [newline]"

section \<open>The files under a root\<close>

text \<open>
  \<open>reach sys p q\<close>: \<open>q\<close> is \<open>p\<close> itself, or an entry of a directory reached from \<open>p\<close>.
\<close>

inductive reach :: "os \<Rightarrow> path \<Rightarrow> path \<Rightarrow> bool" for sys :: os where
  here: "reach sys p p"
| below: "is_directory sys p = Inr True \<Longrightarrow> directory_iterator sys p = Inr cs \<Longrightarrow> c \<in> set cs \<Longrightarrow>
          reach sys c q \<Longrightarrow> reach sys p q"

text \<open>The allow-list, and the discovery result as the specification words it.\<close>

definition allow_list :: "string list" where
  "allow_list = [''.cpp'', ''.h'']"

definition src_files_under :: "os \<Rightarrow> path \<Rightarrow> path set" where
  "src_files_under sys root =
     {q. reach sys root q \<and> is_directory sys q = Inr False \<and> extension q \<in> set allow_list}"

text \<open>
  The entries of the directories under a root, as a relation from entry to directory. It
  is well-founded when no chain of entries under the root goes down for ever.
\<close>

definition child_of :: "os \<Rightarrow> path \<Rightarrow> (path \<times> path) set" where
  "child_of sys root =
     {(c, p). reach sys root p \<and> is_directory sys p = Inr True \<and>
              (\<exists>cs. directory_iterator sys p = Inr cs \<and> c \<in> set cs)}"

text \<open>
  No query of the walk from a root throws: \<^verbatim>\<open>is_directory\<close> answers for every path
  reached, and every directory reached can be listed.
\<close>

definition queries_succeed :: "os \<Rightarrow> path \<Rightarrow> bool" where
  "queries_succeed sys root =
     (\<forall>q. reach sys root q \<longrightarrow>
        (\<exists>dir. is_directory sys q = Inr dir) \<and>
        (is_directory sys q = Inr True \<longrightarrow> (\<exists>cs. directory_iterator sys q = Inr cs)))"

text \<open>Events that only query the file system.\<close>

fun is_query :: "event \<Rightarrow> bool" where
  "is_query (IsDirectory p) = True"
| "is_query (DirectoryIterator p) = True"
| "is_query e = False"

definition query_only :: "event list \<Rightarrow> bool" where
  "query_only evs = (\<forall>e\<in>set evs. is_query e)"

text \<open>
  What a result of the loop of \<^verbatim>\<open>listSrcFiles\<close> says: a list holds the files found so
  far and those under the paths still to process, and no query under these paths throws;
  an exception means that a query under one of these paths throws.
\<close>

definition loop_result ::
  "os \<Rightarrow> path list \<Rightarrow> path list \<Rightarrow> event list \<Rightarrow> event list \<times> (error + path list) \<Rightarrow> bool" where
  "loop_result sys to_process src_files evs r \<longleftrightarrow>
     (query_only evs \<longrightarrow> query_only (fst r)) \<and>
     (\<forall>files. snd r = Inr files \<longrightarrow>
        set files = set src_files \<union> (\<Union>q\<in>set to_process. src_files_under sys q) \<and>
        (\<forall>q\<in>set to_process. queries_succeed sys q)) \<and>
     (\<forall>e. snd r = Inl e \<longrightarrow> \<not> (\<forall>q\<in>set to_process. queries_succeed sys q))"

section \<open>Workers side by side\<close>

text \<open>
  \<open>guarded P held evs\<close>: every event of \<open>evs\<close> that satisfies \<open>P\<close> happens while the
  mutex is held; \<open>held\<close> says whether it is held at the start.
\<close>

fun guarded :: "(event \<Rightarrow> bool) \<Rightarrow> bool \<Rightarrow> event list \<Rightarrow> bool" where
  "guarded P held [] = True"
| "guarded P held (e # es) =
     (if e = Lock then guarded P True es
      else if e = Unlock then guarded P False es
      else (if P e then held else True) \<and> guarded P held es)"

fun is_cout :: "event \<Rightarrow> bool" where
  "is_cout (Cout s) = True"
| "is_cout e = False"

fun is_cout_or_flag :: "event \<Rightarrow> bool" where
  "is_cout_or_flag (Cout s) = True"
| "is_cout_or_flag AssignFlag = True"
| "is_cout_or_flag e = False"

text \<open>
  The runs of several workers side by side: each worker's events in its own order, the
  events of different workers in any order. (The mutex rules some of these orders out.)
\<close>

inductive interleaving :: "'a list list \<Rightarrow> 'a list \<Rightarrow> bool" where
  finished: "\<forall>w\<in>set ws. w = [] \<Longrightarrow> interleaving ws []"
| step: "interleaving (before @ w # behind) tr \<Longrightarrow>
         interleaving (before @ (e # w) # behind) (e # tr)"

text \<open>The flag \<^verbatim>\<open>inputs_need_formatting\<close> behind a sequence of events.\<close>

fun flag_after :: "bool \<Rightarrow> event list \<Rightarrow> bool" where
  "flag_after inputs_need_formatting [] = inputs_need_formatting"
| "flag_after inputs_need_formatting (e # es) =
     flag_after (if e = AssignFlag then True else inputs_need_formatting) es"

text \<open>What a run wrote to each stream.\<close>

fun cerr_of :: "event list \<Rightarrow> string" where
  "cerr_of [] = []"
| "cerr_of (Cerr s # es) = s @ cerr_of es"
| "cerr_of (e # es) = cerr_of es"

fun cout_of :: "event list \<Rightarrow> string" where
  "cout_of [] = []"
| "cout_of (Cout s # es) = s @ cout_of es"
| "cout_of (e # es) = cout_of es"

section \<open>The command line is the tokens joined by single spaces\<close>

text \<open>The command line as the specification words it: the tokens with one space between neighbours.\<close>

fun join_spaces :: "string list \<Rightarrow> string" where
  "join_spaces [] = []"
| "join_spaces [t] = t"
| "join_spaces (t # u # ts) = t @ '' '' @ join_spaces (u # ts)"

section \<open>Example environments\<close>

text \<open>
  A directory \<open>src\<close> with \<open>a.cpp\<close> (formatted), \<open>b.h\<close> (trailing blank the
  formatter strips), \<open>c.txt\<close> and a subdirectory \<open>d\<close> with \<open>e.cpp\<close> (the formatter
  fails on it) and \<open>Makefile\<close>. Only the default formatter can be started, and
  \<^verbatim>\<open>POSIXLY_CORRECT\<close> is not set.
\<close>

definition sys0 :: os where
  "sys0 =
     \<lparr>is_directory = (\<lambda>p. Inr (p = ''src'' \<or> p = ''src/d'')),
      directory_iterator =
        (\<lambda>p. if p = ''src'' then Inr [''src/a.cpp'', ''src/d'', ''src/b.h'', ''src/c.txt'']
             else if p = ''src/d'' then Inr [''src/d/e.cpp'', ''src/d/Makefile'']
             else Inr []),
      open_read =
        (\<lambda>p. if p = ''src/a.cpp'' then Some ''int a;''
             else if p = ''src/b.h'' then Some ''int b; ''
             else if p = ''src/d/e.cpp'' then Some ''x'' else None),
      popen =
        (\<lambda>c. if c = ''clang-format src/a.cpp'' then Some \<lparr>stdout = ''int a;'', status = 0\<rparr>
             else if c = ''clang-format src/b.h'' then Some \<lparr>stdout = ''int b;'', status = 0\<rparr>
             else if c = ''clang-format src/d/e.cpp'' then Some \<lparr>stdout = '''', status = 256\<rparr>
             else None),
      indeterminate = 0,
      env_POSIXLY_CORRECT = False\<rparr>"

text \<open>The same file system, seen by a process with \<^verbatim>\<open>POSIXLY_CORRECT\<close> set.\<close>

definition sys0_posix :: os where
  "sys0_posix = sys0\<lparr>env_POSIXLY_CORRECT := True\<rparr>"

text \<open>
  A directory \<open>c\<close> with the file \<open>ok.h\<close> and a symbolic link \<open>loop.h\<close> that points to
  itself: \<^verbatim>\<open>is_directory\<close> follows the link and throws.
\<close>

definition sys1 :: os where
  "sys1 =
     \<lparr>is_directory =
        (\<lambda>p. if p = ''c/loop.h''
             then Inl (FilesystemError ''status: Too many levels of symbolic links [c/loop.h]'')
             else Inr (p = ''c'')),
      directory_iterator =
        (\<lambda>p. if p = ''c'' then Inr [''c/ok.h'', ''c/loop.h''] else Inr []),
      open_read = (\<lambda>p. if p = ''c/ok.h'' then Some ''int ok;'' else None),
      popen =
        (\<lambda>c. if c = ''clang-format c/ok.h'' then Some \<lparr>stdout = ''int ok;'', status = 0\<rparr>
             else None),
      indeterminate = 0,
      env_POSIXLY_CORRECT = False\<rparr>"

section \<open>The command line of the External Tool Runner\<close>

lemma sum_sizes_eq: "sum_sizes args n = n + sum_list (map length args)"
  by (induction args arbitrary: n) auto

lemma length_join_spaces:
  "args \<noteq> [] \<Longrightarrow> length (join_spaces args) = sum_list (map length args) + (length args - 1)"
  by (induction args rule: join_spaces.induct) auto

lemma memcpy_eq:
  "memcpy (pre @ old @ post) (length pre) src = pre @ src @ post" if "length old = length src"
  using that by (simp add: memcpy_def)

lemma copy_args_eq:
  "length old = length (join_spaces args) \<Longrightarrow>
   copy_args args (length pre) (pre @ old @ post) = pre @ join_spaces args @ post"
proof (induction args arbitrary: pre old)
  case Nil
  then show ?case by simp
next
  case (Cons a args)
  show ?case
  proof (cases args)
    case Nil
    with Cons.prems show ?thesis by (simp add: memcpy_eq)
  next
    case (Cons b bs)
    with Cons.prems have len: "length old = length a + 1 + length (join_spaces args)" by simp
    define o1 where "o1 = take (length a) old"
    define o2 where "o2 = drop (length a + 1) old"
    define sp where "sp = old ! length a"
    have old: "old = o1 @ sp # o2" and l1: "length o1 = length a" and l2: "length o2 = length (join_spaces args)"
      using len unfolding o1_def o2_def sp_def
      by (simp_all add: id_take_nth_drop)
    have m: "memcpy (pre @ old @ post) (length pre) a = pre @ a @ sp # o2 @ post"
      using memcpy_eq[of o1 a pre "sp # o2 @ post"] l1 old by simp
    have u: "(pre @ a @ sp # o2 @ post)[length pre + length a := CHR '' ''] = (pre @ a @ '' '') @ o2 @ post"
      by (simp add: list_update_append)
    have "copy_args (a # args) (length pre) (pre @ old @ post)
        = copy_args args (length (pre @ a @ '' '')) ((pre @ a @ '' '') @ o2 @ post)"
      using Cons m u by (simp add: Let_def)
    also have "\<dots> = (pre @ a @ '' '') @ join_spaces args @ post"
      using Cons.IH[OF l2] by blast
    finally show ?thesis using Cons by simp
  qed
qed

lemma build_cmd_eq: "args \<noteq> [] \<Longrightarrow> build_cmd args = join_spaces args @ [NUL]"
proof -
  assume ne: "args \<noteq> []"
  let ?n = "sum_sizes args 0 + (length args - 1)"
  have n: "?n = length (join_spaces args)" using ne by (simp add: sum_sizes_eq length_join_spaces)
  have "copy_args args 0 (replicate (?n + 1) NUL) = copy_args args (length ([]::char list)) ([] @ replicate ?n NUL @ [NUL])"
    by (simp add: replicate_append_same)
  also have "\<dots> = [] @ join_spaces args @ [NUL]"
    by (rule copy_args_eq) (use n in simp)
  finally show ?thesis by (simp add: build_cmd_def Let_def)
qed

lemma c_str_append_NUL: "NUL \<notin> set s \<Longrightarrow> c_str (s @ NUL # t) = s"
  by (induction s) (auto simp: c_str_def)

lemma c_str_id: "NUL \<notin> set s \<Longrightarrow> c_str s = s"
  by (induction s) (auto simp: c_str_def)

lemma c_str_build_cmd:
  "args \<noteq> [] \<Longrightarrow> NUL \<notin> set (join_spaces args) \<Longrightarrow> c_str (build_cmd args) = join_spaces args"
  by (simp add: build_cmd_eq c_str_append_NUL)

text \<open>
  C5. For every non-empty sequence of tokens, the buffer \<^verbatim>\<open>runCmdForOutput\<close> builds is
  the tokens in order with a single space between neighbours and a terminating NUL, nothing
  quoted or escaped; and when no token holds a NUL byte, that line is the string
  \<^verbatim>\<open>popen\<close> is called with.
\<close>

theorem runCmdForOutput_command_line:
  assumes "args \<noteq> []"
  shows "build_cmd args = join_spaces args @ [NUL] \<and>
         (NUL \<notin> set (join_spaces args) \<longrightarrow>
            fst (runCmdForOutput sys args) = [Popen (join_spaces args)])"
proof -
  have "c_str (build_cmd args) = join_spaces args" if "NUL \<notin> set (join_spaces args)"
    using assms that by (rule c_str_build_cmd)
  then show ?thesis
    using assms by (simp add: build_cmd_eq runCmdForOutput_def Let_def split: option.splits)
qed

theorem runCmdForOutput_command_line_witness:
  "[''clang-format'', ''a b.cpp''] \<noteq> [] \<and>
   build_cmd [''clang-format'', ''a b.cpp''] = ''clang-format a b.cpp'' @ [NUL] \<and>
   fst (runCmdForOutput sys0 [''clang-format'', ''a b.cpp'']) = [Popen ''clang-format a b.cpp'']"
  using runCmdForOutput_command_line [of "[''clang-format'', ''a b.cpp'']" sys0]
  by (simp add: NUL_def)

section \<open>Capturing the output of the formatter\<close>

lemma fgets_take: "take (length (fgets n s)) s = fgets n s"
  by (induction n s rule: fgets.induct) auto

lemma fgets_set: "set (fgets n s) \<subseteq> set s"
  by (induction n s rule: fgets.induct) auto

lemma read_output_NUL_free: "NUL \<notin> set s \<Longrightarrow> read_output s out = out @ s"
proof (induction s out rule: read_output.induct)
  case (1 s out)
  show ?case
  proof (cases "s = []")
    case True
    then show ?thesis by (simp add: read_output.simps)
  next
    case False
    let ?b = "fgets 1024 s"
    have nb: "NUL \<notin> set ?b" using "1.prems" fgets_set by fastforce
    have nd: "NUL \<notin> set (drop (length ?b) s)" using "1.prems" by (meson in_set_dropD)
    have "read_output s out = read_output (drop (length ?b) s) (out @ c_str ?b)"
      using False by (simp add: read_output.simps[of s] Let_def)
    also have "\<dots> = (out @ c_str ?b) @ drop (length ?b) s"
      using "1.IH"[OF False refl nd] .
    also have "\<dots> = out @ (take (length ?b) s @ drop (length ?b) s)"
      by (simp add: c_str_id[OF nb] fgets_take)
    finally show ?thesis by simp
  qed
qed

section \<open>An exception in one check ends the run\<close>

lemma check_files_throws:
  assumes "f \<in> set files" and "snd (check_file sys exe f) = Inl e"
  shows "\<exists>evs' e'. check_files sys exe files flag evs = (evs', Inl e')"
  using assms
proof (induction files arbitrary: flag evs)
  case Nil
  then show ?case by simp
next
  case (Cons g rest)
  obtain ev r where g: "check_file sys exe g = (ev, r)" by (cases "check_file sys exe g")
  show ?case
  proof (cases r)
    case (Inl err)
    with g show ?thesis by simp
  next
    case (Inr assigned)
    with g Cons.prems have "f \<in> set rest" by auto
    from Cons.IH[OF this Cons.prems(2)] g Inr show ?thesis by simp
  qed
qed

lemma check_file_throws:
  "snd (getFileFormatDiff sys f exe) = Inl e \<Longrightarrow> snd (check_file sys exe f) = Inl e"
  by (cases "getFileFormatDiff sys f exe") (auto simp: check_file_def split: sum.splits option.splits)

lemma main_terminates_on_throw:
  assumes "parseSettings (env_POSIXLY_CORRECT sys) args = Some (evs0, Inr settings)"
    and "discover sys (inputs settings) [] evs0 = Some (evs1, Inr files)"
    and "f \<in> set files"
    and "snd (getFileFormatDiff sys f (clang_format_exe settings)) = Inl e"
  shows "\<exists>evs e'. main sys args = Some (evs, Terminate e')"
proof -
  from check_files_throws[OF assms(3) check_file_throws[OF assms(4)]]
  obtain evs' e' where "check_files sys (clang_format_exe settings) files False evs1 = (evs', Inl e')"
    by blast
  with assms(1,2) show ?thesis by (simp add: main_def)
qed

section \<open>The verdicts of the Format-Diff Checker\<close>

text \<open>
  C3. For a file that can be read and a formatter run that returns status 0, the checker
  returns no verdict exactly when the captured output equals the content of the file; when
  they differ, the verdict is the path of the file followed by
  \<^verbatim>\<open> changes when formatted.\<close> (the path as a C string, which is the path itself when it
  holds no NUL byte).
\<close>

theorem getFileFormatDiff_status_zero:
  assumes "open_read sys file = Some file_contents"
    and "runCmdForOutput sys [exe, file] = (evs, Inr res)"
    and "return_status res = 0"
  shows "(snd (getFileFormatDiff sys file exe) = Inr None \<longleftrightarrow> output' res = file_contents) \<and>
         (output' res \<noteq> file_contents \<longrightarrow>
            snd (getFileFormatDiff sys file exe) =
              Inr (Some (c_str file @ '' changes when formatted.''))) \<and>
         (output' res \<noteq> file_contents \<and> NUL \<notin> set file \<longrightarrow>
            snd (getFileFormatDiff sys file exe) =
              Inr (Some (file @ '' changes when formatted.'')))"
  using assms by (auto simp: getFileFormatDiff_def c_str_id)

lemma run_a: "runCmdForOutput sys0 [''clang-format'', ''src/a.cpp''] =
   ([Popen ''clang-format src/a.cpp''], Inr \<lparr>output' = ''int a;'', return_status = 0\<rparr>)"
  by (simp add: runCmdForOutput_def c_str_build_cmd sys0_def read_output_NUL_free NUL_def)

lemma run_b: "runCmdForOutput sys0 [''clang-format'', ''src/b.h''] =
   ([Popen ''clang-format src/b.h''], Inr \<lparr>output' = ''int b;'', return_status = 0\<rparr>)"
  by (simp add: runCmdForOutput_def c_str_build_cmd sys0_def read_output_NUL_free NUL_def)

lemma run_e: "runCmdForOutput sys0 [''clang-format'', ''src/d/e.cpp''] =
   ([Popen ''clang-format src/d/e.cpp''], Inr \<lparr>output' = '''', return_status = 256\<rparr>)"
  by (simp add: runCmdForOutput_def c_str_build_cmd sys0_def read_output_NUL_free NUL_def)

theorem getFileFormatDiff_status_zero_witness:
  "snd (getFileFormatDiff sys0 ''src/a.cpp'' ''clang-format'') = Inr None \<and>
   snd (getFileFormatDiff sys0 ''src/b.h'' ''clang-format'') = Inr (Some ''src/b.h changes when formatted.'')"
proof -
  have a: "open_read sys0 ''src/a.cpp'' = Some ''int a;''" by (simp add: sys0_def)
  have b: "open_read sys0 ''src/b.h'' = Some ''int b; ''" by (simp add: sys0_def)
  show ?thesis
    using getFileFormatDiff_status_zero [OF a run_a] getFileFormatDiff_status_zero [OF b run_b]
    by (simp add: c_str_def NUL_def)
qed

text \<open>
  C4. For a file that can be read, a formatter run that returns a status other than 0 gives
  the verdict \<^verbatim>\<open>Got return code <status> when executing <exe> <file>\<close>, whatever the
  captured output is; for NUL-free names, the line behind \<^verbatim>\<open>executing\<close> is the command
  line that was started.
\<close>

theorem getFileFormatDiff_status_nonzero:
  assumes "open_read sys file = Some file_contents"
    and "runCmdForOutput sys [exe, file] = (evs, Inr res)"
    and "return_status res \<noteq> 0"
  shows "snd (getFileFormatDiff sys file exe) =
           Inr (Some (''Got return code '' @ to_string (return_status res) @
                      '' when executing '' @ exe @ '' '' @ c_str file)) \<and>
         (NUL \<notin> set exe \<and> NUL \<notin> set file \<longrightarrow>
            evs = [Popen (exe @ '' '' @ c_str file)])"
proof -
  have "c_str (build_cmd [exe, file]) = join_spaces [exe, file]" if "NUL \<notin> set exe" "NUL \<notin> set file"
    using that c_str_build_cmd[of "[exe, file]"] by (simp add: NUL_def)
  moreover have "c_str file = file" if "NUL \<notin> set file" using that by (rule c_str_id)
  ultimately show ?thesis
    using assms by (auto simp: getFileFormatDiff_def runCmdForOutput_def Let_def split: option.splits)
qed

lemma to_string_256: "to_string 256 = ''256''" by code_simp

theorem getFileFormatDiff_status_nonzero_witness:
  "snd (getFileFormatDiff sys0 ''src/d/e.cpp'' ''clang-format'') =
     Inr (Some ''Got return code 256 when executing clang-format src/d/e.cpp'')"
proof -
  have e: "open_read sys0 ''src/d/e.cpp'' = Some ''x''" by (simp add: sys0_def)
  show ?thesis
    using getFileFormatDiff_status_nonzero [OF e run_e] by (simp add: c_str_def NUL_def to_string_256)
qed

lemma check_file_Inr:
  "snd (getFileFormatDiff sys f exe) = Inr v \<Longrightarrow> \<exists>e. check_file sys exe f = (e, Inr (v \<noteq> None))"
  by (cases "getFileFormatDiff sys f exe") (auto simp: check_file_def split: option.splits)

lemma check_files_returns:
  assumes "\<forall>f\<in>set files. \<exists>v. snd (getFileFormatDiff sys f exe) = Inr v"
  shows "\<exists>evs'. check_files sys exe files flag evs =
           (evs', Inr (flag \<or> (\<exists>f\<in>set files. \<exists>d. snd (getFileFormatDiff sys f exe) = Inr (Some d))))"
  using assms
proof (induction files arbitrary: flag evs)
  case Nil
  then show ?case by simp
next
  case (Cons g rest)
  from Cons.prems obtain v where v: "snd (getFileFormatDiff sys g exe) = Inr v" by auto
  from check_file_Inr[OF v] obtain e where e: "check_file sys exe g = (e, Inr (v \<noteq> None))" ..
  from Cons.prems have "\<forall>f\<in>set rest. \<exists>v. snd (getFileFormatDiff sys f exe) = Inr v" by simp
  from Cons.IH[OF this, of "if v \<noteq> None then True else flag" "evs @ e"] e v
  show ?case by (cases v) auto
qed

lemma parse_src: "parseSettings False [''prog'', ''src''] = Some ([], Inr \<lparr>clang_format_exe = ''clang-format'', inputs = [''src'']\<rparr>)"
  by code_simp

lemma discover_src: "discover sys0 [''src''] [] [] = Some
  ([IsDirectory ''src'', DirectoryIterator ''src'',
    IsDirectory ''src/c.txt'', IsDirectory ''src/b.h'',
    IsDirectory ''src/d'', DirectoryIterator ''src/d'',
    IsDirectory ''src/d/Makefile'', IsDirectory ''src/d/e.cpp'',
    IsDirectory ''src/a.cpp''],
   Inr [''src/b.h'', ''src/d/e.cpp'', ''src/a.cpp''])"
  by code_simp

lemma env_sys0: "env_POSIXLY_CORRECT sys0 = False"
  by (simp add: sys0_def)

lemma open_read_sys0:
  "open_read sys0 p =
     (if p = ''src/a.cpp'' then Some ''int a;'' else if p = ''src/b.h'' then Some ''int b; ''
      else if p = ''src/d/e.cpp'' then Some ''x'' else None)"
  by (simp add: sys0_def)

lemma diff_a: "getFileFormatDiff sys0 ''src/a.cpp'' ''clang-format'' =
   ([OpenFile ''src/a.cpp'', Popen ''clang-format src/a.cpp''], Inr None)"
  by (simp add: getFileFormatDiff_def run_a open_read_sys0)

lemma diff_b: "getFileFormatDiff sys0 ''src/b.h'' ''clang-format'' =
   ([OpenFile ''src/b.h'', Popen ''clang-format src/b.h''], Inr (Some ''src/b.h changes when formatted.''))"
  by (simp add: getFileFormatDiff_def run_b open_read_sys0 c_str_def NUL_def)

lemma diff_e: "getFileFormatDiff sys0 ''src/d/e.cpp'' ''clang-format'' =
   ([OpenFile ''src/d/e.cpp'', Popen ''clang-format src/d/e.cpp''],
    Inr (Some ''Got return code 256 when executing clang-format src/d/e.cpp''))"
  by (simp add: getFileFormatDiff_def run_e to_string_256 open_read_sys0 c_str_def NUL_def)

section \<open>Launch and read failures\<close>

text \<open>
  C6. When \<^verbatim>\<open>popen\<close> gives no stream, \<^verbatim>\<open>runCmdForOutput\<close> throws; a process that
  was started comes back as a result that carries its status, whatever the status is. The
  exception passes through \<^verbatim>\<open>getFileFormatDiff\<close>, and a run that discovers such a file
  ends in \<^verbatim>\<open>std::terminate\<close>.
\<close>

theorem launch_failure_aborts:
  "(args \<noteq> [] \<and> popen sys (c_str (build_cmd args)) = None \<longrightarrow>
      runCmdForOutput sys args =
        ([Popen (c_str (build_cmd args))],
         Inl (RuntimeError (''Unable to run '' @ c_str (build_cmd args))))) \<and>
   (\<forall>p. args \<noteq> [] \<and> popen sys (c_str (build_cmd args)) = Some p \<longrightarrow>
      (\<exists>out. runCmdForOutput sys args =
         ([Popen (c_str (build_cmd args))], Inr \<lparr>output' = out, return_status = status p\<rparr>))) \<and>
   (\<forall>file exe contents e line evs0 settings evs1 files.
      open_read sys file = Some contents \<and> snd (runCmdForOutput sys [exe, file]) = Inl e \<and>
      parseSettings (env_POSIXLY_CORRECT sys) line = Some (evs0, Inr settings) \<and>
      clang_format_exe settings = exe \<and>
      discover sys (inputs settings) [] evs0 = Some (evs1, Inr files) \<and> file \<in> set files \<longrightarrow>
      snd (getFileFormatDiff sys file exe) = Inl e \<and>
      (\<exists>evs e'. main sys line = Some (evs, Terminate e')))"
proof (intro conjI allI impI)
  assume "args \<noteq> [] \<and> popen sys (c_str (build_cmd args)) = None"
  then show "runCmdForOutput sys args =
        ([Popen (c_str (build_cmd args))],
         Inl (RuntimeError (''Unable to run '' @ c_str (build_cmd args))))"
    by (simp add: runCmdForOutput_def Let_def)
next
  fix p
  assume "args \<noteq> [] \<and> popen sys (c_str (build_cmd args)) = Some p"
  then show "\<exists>out. runCmdForOutput sys args =
         ([Popen (c_str (build_cmd args))], Inr \<lparr>output' = out, return_status = status p\<rparr>)"
    by (simp add: runCmdForOutput_def Let_def)
next
  fix fl exe contents e line evs0 settings evs1 files
  assume a: "open_read sys fl = Some contents \<and> snd (runCmdForOutput sys [exe, fl]) = Inl e \<and>
      parseSettings (env_POSIXLY_CORRECT sys) line = Some (evs0, Inr settings) \<and>
      clang_format_exe settings = exe \<and>
      discover sys (inputs settings) [] evs0 = Some (evs1, Inr files) \<and> fl \<in> set files"
  then show d: "snd (getFileFormatDiff sys fl exe) = Inl e"
    by (cases "runCmdForOutput sys [exe, fl]") (auto simp: getFileFormatDiff_def)
  with a show "\<exists>evs e'. main sys line = Some (evs, Terminate e')"
    using main_terminates_on_throw[where sys = sys and args = line and f = fl] by blast
qed

lemma parse_nope: "parseSettings False [''prog'', ''-c'', ''nope'', ''src''] = Some ([], Inr \<lparr>clang_format_exe = ''nope'', inputs = [''src'']\<rparr>)"
  by code_simp

lemma popen_sys0:
  "popen sys0 c =
     (if c = ''clang-format src/a.cpp'' then Some \<lparr>stdout = ''int a;'', status = 0\<rparr>
      else if c = ''clang-format src/b.h'' then Some \<lparr>stdout = ''int b;'', status = 0\<rparr>
      else if c = ''clang-format src/d/e.cpp'' then Some \<lparr>stdout = '''', status = 256\<rparr>
      else None)"
  by (simp add: sys0_def)

lemma cmd_nope: "c_str (build_cmd [''nope'', ''src/a.cpp'']) = ''nope src/a.cpp''"
  by (simp add: c_str_build_cmd NUL_def)

lemma cmd_e: "c_str (build_cmd [''clang-format'', ''src/d/e.cpp'']) = ''clang-format src/d/e.cpp''"
  by (simp add: c_str_build_cmd NUL_def)

theorem launch_failure_aborts_witness:
  "runCmdForOutput sys0 [''nope'', ''src/a.cpp''] =
     ([Popen ''nope src/a.cpp''], Inl (RuntimeError ''Unable to run nope src/a.cpp'')) \<and>
   (\<exists>out. runCmdForOutput sys0 [''clang-format'', ''src/d/e.cpp''] =
     ([Popen ''clang-format src/d/e.cpp''], Inr \<lparr>output' = out, return_status = 256\<rparr>)) \<and>
   snd (getFileFormatDiff sys0 ''src/a.cpp'' ''nope'') = Inl (RuntimeError ''Unable to run nope src/a.cpp'') \<and>
   (\<exists>evs e'. main sys0 [''prog'', ''-c'', ''nope'', ''src''] = Some (evs, Terminate e'))"
proof -
  have 1: "runCmdForOutput sys0 [''nope'', ''src/a.cpp''] =
     ([Popen ''nope src/a.cpp''], Inl (RuntimeError ''Unable to run nope src/a.cpp''))"
    using launch_failure_aborts [of "[''nope'', ''src/a.cpp'']" sys0]
    by (simp add: cmd_nope popen_sys0)
  have 2: "\<exists>out. runCmdForOutput sys0 [''clang-format'', ''src/d/e.cpp''] =
     ([Popen ''clang-format src/d/e.cpp''], Inr \<lparr>output' = out, return_status = 256\<rparr>)"
    using launch_failure_aborts [of "[''clang-format'', ''src/d/e.cpp'']" sys0]
    by (simp add: cmd_e popen_sys0)
  have h: "open_read sys0 ''src/a.cpp'' = Some ''int a;'' \<and>
      snd (runCmdForOutput sys0 [''nope'', ''src/a.cpp'']) =
        Inl (RuntimeError ''Unable to run nope src/a.cpp'') \<and>
      parseSettings (env_POSIXLY_CORRECT sys0) [''prog'', ''-c'', ''nope'', ''src''] =
        Some ([], Inr \<lparr>clang_format_exe = ''nope'', inputs = [''src'']\<rparr>) \<and>
      clang_format_exe \<lparr>clang_format_exe = ''nope'', inputs = [''src'']\<rparr> = ''nope'' \<and>
      discover sys0 (inputs \<lparr>clang_format_exe = ''nope'', inputs = [''src'']\<rparr>) [] [] =
        Some ([IsDirectory ''src'', DirectoryIterator ''src'',
               IsDirectory ''src/c.txt'', IsDirectory ''src/b.h'',
               IsDirectory ''src/d'', DirectoryIterator ''src/d'',
               IsDirectory ''src/d/Makefile'', IsDirectory ''src/d/e.cpp'',
               IsDirectory ''src/a.cpp''],
              Inr [''src/b.h'', ''src/d/e.cpp'', ''src/a.cpp'']) \<and>
      ''src/a.cpp'' \<in> set [''src/b.h'', ''src/d/e.cpp'', ''src/a.cpp'']"
    using 1 parse_nope discover_src
    by (intro conjI) (simp_all add: open_read_sys0 env_sys0 del: discover.simps)
  have 3: "snd (getFileFormatDiff sys0 ''src/a.cpp'' ''nope'') = Inl (RuntimeError ''Unable to run nope src/a.cpp'') \<and>
      (\<exists>evs e'. main sys0 [''prog'', ''-c'', ''nope'', ''src''] = Some (evs, Terminate e'))"
    by (rule launch_failure_aborts [of "[]" sys0, THEN conjunct2, THEN conjunct2, rule_format, OF h])
  from 1 2 3 show ?thesis by blast
qed

text \<open>
  C8. For a file that cannot be opened, \<^verbatim>\<open>getFileFormatDiff\<close> throws after the attempt to
  open it and before any process is started (the open is its only event), and a run that
  discovers such a file ends in \<^verbatim>\<open>std::terminate\<close>: no verdict is made of it.
\<close>

theorem read_failure_aborts:
  assumes "open_read sys file = None"
  shows "getFileFormatDiff sys file exe =
           ([OpenFile file], Inl (RuntimeError (''Unable to open src file '' @ file))) \<and>
         (\<forall>line evs0 settings evs1 files.
            parseSettings (env_POSIXLY_CORRECT sys) line = Some (evs0, Inr settings) \<and>
            clang_format_exe settings = exe \<and>
            discover sys (inputs settings) [] evs0 = Some (evs1, Inr files) \<and> file \<in> set files \<longrightarrow>
            (\<exists>evs e. main sys line = Some (evs, Terminate e)))"
proof (intro conjI allI impI)
  show d: "getFileFormatDiff sys file exe =
           ([OpenFile file], Inl (RuntimeError (''Unable to open src file '' @ file)))"
    using assms by (simp add: getFileFormatDiff_def)
  fix line evs0 settings evs1 files
  assume "parseSettings (env_POSIXLY_CORRECT sys) line = Some (evs0, Inr settings) \<and>
          clang_format_exe settings = exe \<and>
            discover sys (inputs settings) [] evs0 = Some (evs1, Inr files) \<and> file \<in> set files"
  with d show "\<exists>evs e. main sys line = Some (evs, Terminate e)"
    using main_terminates_on_throw[where sys = sys and args = line and f = "file"] by simp
qed

lemma parse_ghost: "parseSettings False [''prog'', ''ghost.cpp''] = Some ([], Inr \<lparr>clang_format_exe = ''clang-format'', inputs = [''ghost.cpp'']\<rparr>)"
  by code_simp

lemma discover_ghost:
  "discover sys0 [''ghost.cpp''] [] [] = Some ([IsDirectory ''ghost.cpp''], Inr [''ghost.cpp''])"
  by code_simp

theorem read_failure_aborts_witness:
  "getFileFormatDiff sys0 ''ghost.cpp'' ''clang-format'' =
     ([OpenFile ''ghost.cpp''], Inl (RuntimeError ''Unable to open src file ghost.cpp'')) \<and>
   (\<exists>evs e. main sys0 [''prog'', ''ghost.cpp''] = Some (evs, Terminate e))"
proof -
  have n: "open_read sys0 ''ghost.cpp'' = None" by (simp add: open_read_sys0)
  have h: "parseSettings (env_POSIXLY_CORRECT sys0) [''prog'', ''ghost.cpp''] =
        Some ([], Inr \<lparr>clang_format_exe = ''clang-format'', inputs = [''ghost.cpp'']\<rparr>) \<and>
      clang_format_exe \<lparr>clang_format_exe = ''clang-format'', inputs = [''ghost.cpp'']\<rparr> =
        ''clang-format'' \<and>
      discover sys0 (inputs \<lparr>clang_format_exe = ''clang-format'', inputs = [''ghost.cpp'']\<rparr>) [] [] =
        Some ([IsDirectory ''ghost.cpp''], Inr [''ghost.cpp'']) \<and>
      ''ghost.cpp'' \<in> set [''ghost.cpp'']"
    using parse_ghost discover_ghost
    by (intro conjI) (simp_all add: env_sys0 del: discover.simps)
  from read_failure_aborts [OF n, of "''clang-format''"]
  have "getFileFormatDiff sys0 ''ghost.cpp'' ''clang-format'' =
     ([OpenFile ''ghost.cpp''], Inl (RuntimeError (''Unable to open src file '' @ ''ghost.cpp'')))"
    and "\<exists>evs e. main sys0 [''prog'', ''ghost.cpp''] = Some (evs, Terminate e)"
    using h by blast+
  then show ?thesis by simp
qed

section \<open>A parse that succeeds writes nothing\<close>



section \<open>File Discovery finds the files of the allow-list\<close>

text \<open>The extension of some paths, as the C++ library reports it.\<close>

lemma extension_examples:
  "map extension [''/foo/bar.txt'', ''/foo/bar.'', ''/foo/bar'', ''/foo/bar.txt/bar.cc'',
                  ''/foo/.'', ''/foo/..'', ''/foo/.hidden'', ''/foo/..bar'', ''a.cpp'', ''b.h''] =
     [''.txt'', ''.'', [], ''.cc'', [], [], [], ''.bar'', ''.cpp'', ''.h'']"
  by code_simp

lemma reach_unfold:
  "reach sys p q \<longleftrightarrow>
     q = p \<or> (\<exists>cs c. is_directory sys p = Inr True \<and> directory_iterator sys p = Inr cs \<and>
                      c \<in> set cs \<and> reach sys c q)"
proof
  assume "reach sys p q"
  then show "q = p \<or> (\<exists>cs c. is_directory sys p = Inr True \<and> directory_iterator sys p = Inr cs \<and>
                      c \<in> set cs \<and> reach sys c q)"
    by (cases rule: reach.cases) blast+
next
  assume "q = p \<or> (\<exists>cs c. is_directory sys p = Inr True \<and> directory_iterator sys p = Inr cs \<and>
                      c \<in> set cs \<and> reach sys c q)"
  then show "reach sys p q" by (auto intro: reach.intros)
qed

lemma reach_step:
  "reach sys p q \<Longrightarrow> is_directory sys q = Inr True \<Longrightarrow> directory_iterator sys q = Inr cs \<Longrightarrow>
   c \<in> set cs \<Longrightarrow> reach sys p c"
  by (induction rule: reach.induct) (auto intro: reach.intros)

lemma reach_trans: "reach sys p q \<Longrightarrow> reach sys q r \<Longrightarrow> reach sys p r"
  by (induction rule: reach.induct) (auto intro: reach.intros)

lemma src_files_under_dir:
  assumes "is_directory sys q = Inr True" and "directory_iterator sys q = Inr cs"
  shows "src_files_under sys q = (\<Union>c\<in>set cs. src_files_under sys c)"
  using assms unfolding src_files_under_def by (subst reach_unfold) auto

lemma src_files_under_file:
  assumes "is_directory sys q = Inr False"
  shows "src_files_under sys q = (if extension q \<in> set allow_list then {q} else {})"
  using assms unfolding src_files_under_def by (subst reach_unfold) auto

lemma queries_succeed_dir:
  assumes "is_directory sys q = Inr True" and "directory_iterator sys q = Inr cs"
  shows "queries_succeed sys q \<longleftrightarrow> (\<forall>c\<in>set cs. queries_succeed sys c)"
proof
  assume "queries_succeed sys q"
  then show "\<forall>c\<in>set cs. queries_succeed sys c"
    unfolding queries_succeed_def using assms by (meson reach.below)
next
  assume a: "\<forall>c\<in>set cs. queries_succeed sys c"
  show "queries_succeed sys q"
    unfolding queries_succeed_def
  proof (intro allI impI)
    fix x
    assume "reach sys q x"
    then consider "x = q" | c where "c \<in> set cs" "reach sys c x"
      using assms by (subst (asm) reach_unfold) auto
    then show "(\<exists>dir. is_directory sys x = Inr dir) \<and>
        (is_directory sys x = Inr True \<longrightarrow> (\<exists>cs. directory_iterator sys x = Inr cs))"
    proof cases
      case 1
      with assms show ?thesis by auto
    next
      case 2
      with a show ?thesis unfolding queries_succeed_def by blast
    qed
  qed
qed

lemma queries_succeed_file:
  assumes "is_directory sys q = Inr False"
  shows "queries_succeed sys q"
  unfolding queries_succeed_def
proof (intro allI impI)
  fix x
  assume "reach sys q x"
  then have "x = q" using assms by (subst (asm) reach_unfold) auto
  with assms show "(\<exists>dir. is_directory sys x = Inr dir) \<and>
        (is_directory sys x = Inr True \<longrightarrow> (\<exists>cs. directory_iterator sys x = Inr cs))"
    by auto
qed

lemma allowed_iff:
  "has_extension q \<and> (extension q = ''.cpp'' \<or> extension q = ''.h'') \<longleftrightarrow> extension q \<in> set allow_list"
  by (auto simp: has_extension_def allow_list_def)

lemma listSrcFiles_loop_sound:
  assumes "listSrcFiles_loop sys to_process src_files evs = Some r"
  shows "loop_result sys to_process src_files evs r"
proof (rule listSrcFiles_loop.raw_induct[OF _ assms])
  fix loop sys to_process src_files evs r
  assume IH: "\<And>sys to_process src_files evs r. loop sys to_process src_files evs = Some r \<Longrightarrow>
      loop_result sys to_process src_files evs r"
  assume step: "(if to_process = [] then Some (evs, Inr src_files)
      else let current = last to_process;
               to_process1 = butlast to_process;
               evs1 = evs @ [IsDirectory current]
           in case is_directory sys current of
                Inl e \<Rightarrow> Some (evs1, Inl e)
              | Inr dir \<Rightarrow>
                  if dir
                  then (case directory_iterator sys current of
                          Inl e \<Rightarrow> Some (evs1 @ [DirectoryIterator current], Inl e)
                        | Inr children \<Rightarrow>
                            loop sys (to_process1 @ children)
                              src_files (evs1 @ [DirectoryIterator current]))
                  else if has_extension current
                  then (let ext = extension current
                        in if ext = ''.cpp'' \<or> ext = ''.h''
                           then loop sys to_process1 (src_files @ [current]) evs1
                           else loop sys to_process1 src_files evs1)
                  else loop sys to_process1 src_files evs1) = Some r"
  show "loop_result sys to_process src_files evs r"
  proof (cases "to_process = []")
    case True
    with step show ?thesis by (auto simp: loop_result_def)
  next
    case False
    define current where "current = last to_process"
    define to_process1 where "to_process1 = butlast to_process"
    have tp: "to_process = to_process1 @ [current]"
      using False by (simp add: current_def to_process1_def)
    have U: "(\<Union>q\<in>set to_process. src_files_under sys q) =
             (\<Union>q\<in>set to_process1. src_files_under sys q) \<union> src_files_under sys current"
      by (auto simp: tp)
    have Q: "(\<forall>q\<in>set to_process. queries_succeed sys q) \<longleftrightarrow>
             (\<forall>q\<in>set to_process1. queries_succeed sys q) \<and> queries_succeed sys current"
      by (auto simp: tp)
    have q1: "query_only evs \<Longrightarrow> query_only (evs @ [IsDirectory current])"
      and q2: "query_only evs \<Longrightarrow> query_only ((evs @ [IsDirectory current]) @ [DirectoryIterator current])"
      by (auto simp: query_only_def)
    show ?thesis
    proof (cases "is_directory sys current")
      case (Inl e)
      then have nq: "\<not> queries_succeed sys current"
        unfolding queries_succeed_def using reach.here[of sys current] by auto
      from step False Inl have "r = (evs @ [IsDirectory current], Inl e)"
        by (simp add: Let_def current_def to_process1_def)
      with nq q1 show ?thesis by (auto simp: loop_result_def tp)
    next
      case (Inr dir)
      show ?thesis
      proof (cases dir)
        case True
        show ?thesis
        proof (cases "directory_iterator sys current")
          case (Inl e)
          with Inr True have nq: "\<not> queries_succeed sys current"
            unfolding queries_succeed_def using reach.here[of sys current] by auto
          from step False Inr True Inl
          have "r = ((evs @ [IsDirectory current]) @ [DirectoryIterator current], Inl e)"
            by (simp add: Let_def current_def to_process1_def)
          with nq q2 show ?thesis by (auto simp: loop_result_def tp)
        next
          case children: (Inr cs)
          with step False Inr True have "loop sys (to_process1 @ cs) src_files
              ((evs @ [IsDirectory current]) @ [DirectoryIterator current]) = Some r"
            by (simp add: Let_def current_def to_process1_def)
          from IH[OF this] have ih: "loop_result sys (to_process1 @ cs) src_files
              ((evs @ [IsDirectory current]) @ [DirectoryIterator current]) r" .
          have sc: "src_files_under sys current = (\<Union>c\<in>set cs. src_files_under sys c)"
            using Inr True children by (simp add: src_files_under_dir)
          have qc: "queries_succeed sys current \<longleftrightarrow> (\<forall>c\<in>set cs. queries_succeed sys c)"
            using Inr True children by (simp add: queries_succeed_dir)
          from ih q2 show ?thesis
            unfolding loop_result_def U Q sc qc by auto
        qed
      next
        case notdir: False
        have qc: "queries_succeed sys current"
          using Inr notdir by (simp add: queries_succeed_file)
        show ?thesis
        proof (cases "extension current \<in> set allow_list")
          case True
          then have "has_extension current \<and> (extension current = ''.cpp'' \<or> extension current = ''.h'')"
            by (simp add: allowed_iff)
          with step False Inr notdir
          have "loop sys to_process1 (src_files @ [current]) (evs @ [IsDirectory current]) = Some r"
            by (simp add: Let_def current_def to_process1_def)
          from IH[OF this] have ih: "loop_result sys to_process1 (src_files @ [current])
              (evs @ [IsDirectory current]) r" .
          have sc: "src_files_under sys current = {current}"
            using True Inr notdir by (simp add: src_files_under_file)
          from ih q1 qc show ?thesis
            unfolding loop_result_def U Q sc by auto
        next
          case False
          then have "\<not> (has_extension current \<and> (extension current = ''.cpp'' \<or> extension current = ''.h''))"
            by (simp add: allowed_iff)
          with step \<open>to_process \<noteq> []\<close> Inr notdir
          have "loop sys to_process1 src_files (evs @ [IsDirectory current]) = Some r"
            by (auto simp add: Let_def current_def to_process1_def split: if_splits)
          from IH[OF this] have ih: "loop_result sys to_process1 src_files
              (evs @ [IsDirectory current]) r" .
          have sc: "src_files_under sys current = {}"
            using False Inr notdir by (simp add: src_files_under_file)
          from ih q1 qc show ?thesis
            unfolding loop_result_def U Q sc by auto
        qed
      qed
    qed
  qed
qed

lemma listSrcFiles_loop_terminates:
  assumes wf: "wf (child_of sys root)"
  shows "(\<forall>q\<in>set to_process. reach sys root q) \<Longrightarrow>
         \<exists>r. listSrcFiles_loop sys to_process src_files evs = Some r"
proof -
  have "wf (inv_image (mult1 (child_of sys root)) mset)"
    using wf by (intro wf_inv_image wf_mult1)
  then show "(\<forall>q\<in>set to_process. reach sys root q) \<Longrightarrow>
         \<exists>r. listSrcFiles_loop sys to_process src_files evs = Some r"
  proof (induction to_process arbitrary: src_files evs rule: wf_induct_rule)
    case (less to_process)
    show ?case
    proof (cases "to_process = []")
      case True
      then show ?thesis by (simp add: listSrcFiles_loop.simps)
    next
      case False
      define current where "current = last to_process"
      define to_process1 where "to_process1 = butlast to_process"
      have tp: "to_process = to_process1 @ [current]"
        using False by (simp add: current_def to_process1_def)
      have rc: "reach sys root current" and r1: "\<forall>q\<in>set to_process1. reach sys root q"
        using less.prems by (auto simp: tp)
      show ?thesis
      proof (cases "is_directory sys current")
        case (Inl e)
        with False show ?thesis
          by (subst listSrcFiles_loop.simps) (simp add: Let_def current_def)
      next
        case (Inr dir)
        show ?thesis
        proof (cases dir)
          case True
          show ?thesis
          proof (cases "directory_iterator sys current")
            case (Inl e)
            with False Inr True show ?thesis
              by (subst listSrcFiles_loop.simps) (simp add: Let_def current_def)
          next
            case children: (Inr cs)
            let ?new = "to_process1 @ cs"
            have "(mset ?new, mset to_process) \<in> mult1 (child_of sys root)"
              by (rule mult1I[of _ current "mset to_process1" _ "mset cs"])
                 (use Inr True children rc in \<open>auto simp: child_of_def tp\<close>)
            then have dec: "(?new, to_process) \<in> inv_image (mult1 (child_of sys root)) mset"
              by simp
            have "\<forall>q\<in>set ?new. reach sys root q"
              using r1 rc Inr True children by (auto intro: reach_step)
            from less.IH[OF dec this] obtain r where
              "listSrcFiles_loop sys ?new src_files
                 ((evs @ [IsDirectory current]) @ [DirectoryIterator current]) = Some r"
              by blast
            then show ?thesis
              using False Inr True children
              by (subst listSrcFiles_loop.simps) (simp add: Let_def current_def to_process1_def)
          qed
        next
          case notdir: False
          have "(mset to_process1, mset to_process) \<in> mult1 (child_of sys root)"
            by (rule mult1I[of _ current "mset to_process1" _ "{#}"]) (auto simp: tp)
          then have dec: "(to_process1, to_process) \<in> inv_image (mult1 (child_of sys root)) mset"
            by simp
          from less.IH[OF dec r1]
          have "\<exists>r. listSrcFiles_loop sys to_process1 s e = Some r" for s e by blast
          then show ?thesis
            using False Inr notdir
            by (subst listSrcFiles_loop.simps) (simp add: Let_def current_def to_process1_def)
        qed
      qed
    qed
  qed
qed

text \<open>
  C2 (amended). Whenever \<^verbatim>\<open>listSrcFiles\<close> returns a list, no query under the root has
  thrown, and the list holds exactly the paths reached from the root for which
  \<^verbatim>\<open>is_directory\<close> is false and whose extension is in the allow-list; a path with no
  extension is not in it, and the walk does nothing but query the file system. When the
  entries under the root form a well-founded relation, the walk ends: with such a list
  when every query under the root succeeds, and with the exception of the first failing
  query, and no list, when one of them throws.
\<close>

theorem listSrcFiles_filter:
  "(\<forall>evs files. listSrcFiles sys root = Some (evs, Inr files) \<longrightarrow>
      set files = src_files_under sys root \<and>
      (\<forall>q. \<not> has_extension q \<longrightarrow> q \<notin> set files) \<and> query_only evs \<and>
      queries_succeed sys root) \<and>
   (wf (child_of sys root) \<and> queries_succeed sys root \<longrightarrow>
      (\<exists>evs files. listSrcFiles sys root = Some (evs, Inr files))) \<and>
   (wf (child_of sys root) \<and> \<not> queries_succeed sys root \<longrightarrow>
      (\<exists>evs e. listSrcFiles sys root = Some (evs, Inl e)))"
proof (intro conjI allI impI)
  fix evs files
  assume a: "listSrcFiles sys root = Some (evs, Inr files)"
  from listSrcFiles_loop_sound[OF a[unfolded listSrcFiles_def]]
  show s: "set files = src_files_under sys root" and "query_only evs"
    and "queries_succeed sys root"
    by (simp_all add: loop_result_def query_only_def)
  fix q
  assume "\<not> has_extension q"
  then show "q \<notin> set files"
    unfolding s src_files_under_def by (auto simp: has_extension_def allow_list_def)
next
  assume a: "wf (child_of sys root) \<and> queries_succeed sys root"
  then obtain r where r: "listSrcFiles_loop sys [root] [] [] = Some r"
    using listSrcFiles_loop_terminates[of sys root "[root]" "[]" "[]"]
    by (auto intro: reach.here)
  obtain evs res where p: "r = (evs, res)" by (cases r)
  from listSrcFiles_loop_sound[OF r] a p have "\<exists>files. res = Inr files"
    by (cases res) (auto simp: loop_result_def)
  with r p show "\<exists>evs files. listSrcFiles sys root = Some (evs, Inr files)"
    by (auto simp: listSrcFiles_def)
next
  assume a: "wf (child_of sys root) \<and> \<not> queries_succeed sys root"
  then obtain r where r: "listSrcFiles_loop sys [root] [] [] = Some r"
    using listSrcFiles_loop_terminates[of sys root "[root]" "[]" "[]"]
    by (auto intro: reach.here)
  obtain evs res where p: "r = (evs, res)" by (cases r)
  from listSrcFiles_loop_sound[OF r] a p have "\<exists>e. res = Inl e"
    by (cases res) (auto simp: loop_result_def)
  with r p show "\<exists>evs e. listSrcFiles sys root = Some (evs, Inl e)"
    by (auto simp: listSrcFiles_def)
qed

lemma is_directory_sys0: "is_directory sys0 p = Inr (p = ''src'' \<or> p = ''src/d'')"
  by (simp add: sys0_def)

lemma directory_iterator_sys0:
  "directory_iterator sys0 p =
     (if p = ''src'' then Inr [''src/a.cpp'', ''src/d'', ''src/b.h'', ''src/c.txt'']
      else if p = ''src/d'' then Inr [''src/d/e.cpp'', ''src/d/Makefile''] else Inr [])"
  by (simp add: sys0_def)

lemma wf_child_of_sys0: "wf (child_of sys0 root)"
proof (rule wf_subset)
  show "wf (measure (\<lambda>p. if p = ''src'' then 2 else if p = ''src/d'' then 1 else (0::nat)))"
    by simp
  show "child_of sys0 root \<subseteq> measure (\<lambda>p. if p = ''src'' then 2 else if p = ''src/d'' then 1 else (0::nat))"
    by (auto simp: child_of_def is_directory_sys0 directory_iterator_sys0 split: if_splits)
qed

lemma queries_succeed_sys0: "queries_succeed sys0 root"
  by (simp add: queries_succeed_def is_directory_sys0 directory_iterator_sys0)

lemma listSrcFiles_src: "listSrcFiles sys0 ''src'' = Some
  ([IsDirectory ''src'', DirectoryIterator ''src'',
    IsDirectory ''src/c.txt'', IsDirectory ''src/b.h'',
    IsDirectory ''src/d'', DirectoryIterator ''src/d'',
    IsDirectory ''src/d/Makefile'', IsDirectory ''src/d/e.cpp'',
    IsDirectory ''src/a.cpp''],
   Inr [''src/b.h'', ''src/d/e.cpp'', ''src/a.cpp''])"
  by code_simp

theorem listSrcFiles_filter_witness:
  "wf (child_of sys0 ''src'') \<and> queries_succeed sys0 ''src'' \<and>
   (\<exists>evs. listSrcFiles sys0 ''src'' = Some (evs, Inr [''src/b.h'', ''src/d/e.cpp'', ''src/a.cpp''])) \<and>
   src_files_under sys0 ''src'' = {''src/b.h'', ''src/d/e.cpp'', ''src/a.cpp''} \<and>
   ''src/d/Makefile'' \<notin> src_files_under sys0 ''src'' \<and>
   \<not> queries_succeed sys1 ''c'' \<and>
   (\<exists>evs e. listSrcFiles sys1 ''c'' = Some (evs, Inl e))"
proof -
  from listSrcFiles_filter [of sys0 "''src''"] listSrcFiles_src
  have "set [''src/b.h'', ''src/d/e.cpp'', ''src/a.cpp''] = src_files_under sys0 ''src''"
    by blast
  then have s: "src_files_under sys0 ''src'' = {''src/b.h'', ''src/d/e.cpp'', ''src/a.cpp''}"
    by simp
  have w1: "wf (child_of sys1 ''c'')"
  proof (rule wf_subset)
    show "wf (measure (\<lambda>p. if p = ''c'' then 1 else (0::nat)))" by simp
    show "child_of sys1 ''c'' \<subseteq> measure (\<lambda>p. if p = ''c'' then 1 else (0::nat))"
      by (auto simp: child_of_def sys1_def split: if_splits)
  qed
  have "reach sys1 ''c'' ''c/loop.h''"
    by (rule reach.below[of sys1 _ "[''c/ok.h'', ''c/loop.h'']" "''c/loop.h''"])
       (simp_all add: sys1_def reach.here)
  then have nq: "\<not> queries_succeed sys1 ''c''"
    unfolding queries_succeed_def by (auto simp: sys1_def intro!: exI[of _ "''c/loop.h''"])
  from listSrcFiles_filter [of sys1 "''c''"] w1 nq
  have t: "\<exists>evs e. listSrcFiles sys1 ''c'' = Some (evs, Inl e)" by blast
  show ?thesis
    unfolding s using wf_child_of_sys0 [of "''src''"] queries_succeed_sys0 listSrcFiles_src nq t
    by simp
qed

lemma listSrcFiles_sys1:
  "listSrcFiles sys1 ''c'' =
     Some ([IsDirectory ''c'', DirectoryIterator ''c'', IsDirectory ''c/loop.h''],
           Inl (FilesystemError ''status: Too many levels of symbolic links [c/loop.h]''))"
  by code_simp

text \<open>
  Not every root has a result: in the directory \<open>c\<close> that holds \<open>ok.h\<close> and the link
  \<open>loop.h\<close> to itself, \<^verbatim>\<open>is_directory\<close> throws on the link and the exception leaves
  \<^verbatim>\<open>listSrcFiles\<close>; \<open>ok.h\<close> is not returned.
\<close>

theorem listSrcFiles_filter_counterexample:
  "listSrcFiles sys1 ''c'' =
     Some ([IsDirectory ''c'', DirectoryIterator ''c'', IsDirectory ''c/loop.h''],
           Inl (FilesystemError ''status: Too many levels of symbolic links [c/loop.h]''))"
  by (rule listSrcFiles_sys1)

section \<open>The flag and the mutex\<close>

lemma interleaving_set: "interleaving ws tr \<Longrightarrow> set tr = (\<Union>w\<in>set ws. set w)"
  by (induction rule: interleaving.induct) auto

lemma flag_after_iff: "flag_after b evs \<longleftrightarrow> b \<or> AssignFlag \<in> set evs"
  by (induction evs arbitrary: b) auto

lemma getFileFormatDiff_events:
  "e \<in> set (fst (getFileFormatDiff sys input exe)) \<Longrightarrow> (\<exists>p. e = OpenFile p) \<or> (\<exists>c. e = Popen c)"
  by (auto simp: getFileFormatDiff_def runCmdForOutput_def Let_def split: option.splits if_splits)

lemma guarded_append_quiet:
  "\<forall>e\<in>set evs. e \<noteq> Lock \<and> e \<noteq> Unlock \<and> \<not> P e \<Longrightarrow> guarded P held (evs @ rest) = guarded P held rest"
  by (induction evs) auto

lemma check_file_events:
  "fst (check_file sys exe input) =
     fst (getFileFormatDiff sys input exe) @
     (case snd (getFileFormatDiff sys input exe) of
        Inr (Some diff) \<Rightarrow> AssignFlag # printDiff input diff
      | _ \<Rightarrow> [])"
  by (cases "getFileFormatDiff sys input exe")
     (auto simp: check_file_def split: sum.splits option.splits)

lemma AssignFlag_in_check_file:
  "AssignFlag \<in> set (fst (check_file sys exe input)) \<longleftrightarrow>
     (\<exists>d. snd (getFileFormatDiff sys input exe) = Inr (Some d))"
proof (cases "snd (getFileFormatDiff sys input exe)")
  case (Inl e)
  then show ?thesis
    using getFileFormatDiff_events[of AssignFlag sys input exe] by (auto simp: check_file_events)
next
  case (Inr v)
  then show ?thesis
    using getFileFormatDiff_events[of AssignFlag sys input exe]
    by (cases v) (auto simp: check_file_events printDiff_def)
qed

lemma interleaving_left: "interleaving [w, v] tr \<Longrightarrow> interleaving [e # w, v] (e # tr)"
  using interleaving.step[of "[]" w "[v]" tr e] by simp

lemma interleaving_right: "interleaving [w, v] tr \<Longrightarrow> interleaving [w, e # v] (e # tr)"
  using interleaving.step[of "[w]" v "[]" tr e] by simp

lemma interleaving_nil2: "interleaving [[], []] []"
  by (rule interleaving.finished) simp

text \<open>
  C9 (amended). For a file with a verdict, the loop body assigns the flag first and only
  then takes the mutex, under which the two writes of the verdict happen; every write to
  \<^verbatim>\<open>std::cout\<close> of an iteration is made with the mutex held. When every check returns,
  the flag is true behind every interleaving of the iterations exactly when some file has a
  verdict.
\<close>

theorem flag_assigned_outside_mutex:
  "(\<forall>d. snd (getFileFormatDiff sys input exe) = Inr (Some d) \<longrightarrow>
      fst (check_file sys exe input) =
        fst (getFileFormatDiff sys input exe) @
        [AssignFlag, Lock,
         Cout (''File '' @ quoted input @ '' needs formatting'' @ [newline]),
         Cout (d @ [newline]), Unlock]) \<and>
   guarded is_cout False (fst (check_file sys exe input)) \<and>
   (\<forall>tr. (\<forall>f\<in>set files. \<exists>v. snd (getFileFormatDiff sys f exe) = Inr v) \<and>
         interleaving (map (\<lambda>f. fst (check_file sys exe f)) files) tr \<longrightarrow>
         (flag_after False tr \<longleftrightarrow>
            (\<exists>f\<in>set files. \<exists>d. snd (getFileFormatDiff sys f exe) = Inr (Some d))))"
proof (intro conjI allI impI)
  fix d
  assume "snd (getFileFormatDiff sys input exe) = Inr (Some d)"
  then show "fst (check_file sys exe input) =
        fst (getFileFormatDiff sys input exe) @
        [AssignFlag, Lock,
         Cout (''File '' @ quoted input @ '' needs formatting'' @ [newline]),
         Cout (d @ [newline]), Unlock]"
    by (simp add: check_file_events printDiff_def)
next
  have q: "\<forall>e\<in>set (fst (getFileFormatDiff sys input exe)). e \<noteq> Lock \<and> e \<noteq> Unlock \<and> \<not> is_cout e"
    using getFileFormatDiff_events[of _ sys input exe] by fastforce
  show "guarded is_cout False (fst (check_file sys exe input))"
    unfolding check_file_events guarded_append_quiet[OF q]
    by (simp add: printDiff_def split: sum.splits option.splits)
next
  fix tr
  assume a: "(\<forall>f\<in>set files. \<exists>v. snd (getFileFormatDiff sys f exe) = Inr v) \<and>
         interleaving (map (\<lambda>f. fst (check_file sys exe f)) files) tr"
  then have "set tr = (\<Union>f\<in>set files. set (fst (check_file sys exe f)))"
    using interleaving_set[of "map (\<lambda>f. fst (check_file sys exe f)) files" tr] by simp
  then show "flag_after False tr \<longleftrightarrow>
            (\<exists>f\<in>set files. \<exists>d. snd (getFileFormatDiff sys f exe) = Inr (Some d))"
    by (simp add: flag_after_iff AssignFlag_in_check_file)
qed

lemma check_file_b: "check_file sys0 ''clang-format'' ''src/b.h'' =
  ([OpenFile ''src/b.h'', Popen ''clang-format src/b.h'', AssignFlag, Lock,
    Cout (''File '' @ quoted ''src/b.h'' @ '' needs formatting'' @ [newline]),
    Cout (''src/b.h changes when formatted.'' @ [newline]), Unlock], Inr True)"
  by (simp add: check_file_def diff_b printDiff_def)

lemma check_file_a: "check_file sys0 ''clang-format'' ''src/a.cpp'' =
  ([OpenFile ''src/a.cpp'', Popen ''clang-format src/a.cpp''], Inr False)"
  by (simp add: check_file_def diff_a)

text \<open>
  The flag is not assigned inside the mutex region: for \<open>b.h\<close> of the example, the
  assignment happens with the mutex free.
\<close>

theorem flag_assigned_outside_mutex_counterexample:
  "\<not> guarded is_cout_or_flag False (fst (check_file sys0 ''clang-format'' ''src/b.h''))"
  by (simp add: check_file_b)

theorem flag_assigned_outside_mutex_witness:
  "fst (check_file sys0 ''clang-format'' ''src/b.h'') =
     [OpenFile ''src/b.h'', Popen ''clang-format src/b.h'', AssignFlag, Lock,
      Cout (''File '' @ quoted ''src/b.h'' @ '' needs formatting'' @ [newline]),
      Cout (''src/b.h changes when formatted.'' @ [newline]), Unlock] \<and>
   guarded is_cout False (fst (check_file sys0 ''clang-format'' ''src/b.h'')) \<and>
   interleaving (map (\<lambda>f. fst (check_file sys0 ''clang-format'' f)) [''src/b.h'', ''src/a.cpp''])
     [OpenFile ''src/b.h'', OpenFile ''src/a.cpp'', Popen ''clang-format src/b.h'', AssignFlag,
      Popen ''clang-format src/a.cpp'', Lock,
      Cout (''File '' @ quoted ''src/b.h'' @ '' needs formatting'' @ [newline]),
      Cout (''src/b.h changes when formatted.'' @ [newline]), Unlock] \<and>
   flag_after False
     [OpenFile ''src/b.h'', OpenFile ''src/a.cpp'', Popen ''clang-format src/b.h'', AssignFlag,
      Popen ''clang-format src/a.cpp'', Lock,
      Cout (''File '' @ quoted ''src/b.h'' @ '' needs formatting'' @ [newline]),
      Cout (''src/b.h changes when formatted.'' @ [newline]), Unlock]"
proof -
  let ?B = "[AssignFlag, Lock,
      Cout (''File '' @ quoted ''src/b.h'' @ '' needs formatting'' @ [newline]),
      Cout (''src/b.h changes when formatted.'' @ [newline]), Unlock]"
  let ?tr = "[OpenFile ''src/b.h'', OpenFile ''src/a.cpp'', Popen ''clang-format src/b.h'', AssignFlag,
      Popen ''clang-format src/a.cpp'', Lock,
      Cout (''File '' @ quoted ''src/b.h'' @ '' needs formatting'' @ [newline]),
      Cout (''src/b.h changes when formatted.'' @ [newline]), Unlock]"
  have i4: "interleaving [OpenFile ''src/b.h'' # Popen ''clang-format src/b.h'' # ?B,
       [OpenFile ''src/a.cpp'', Popen ''clang-format src/a.cpp'']] ?tr"
    by (rule interleaving_left, rule interleaving_right, rule interleaving_left,
        rule interleaving_left, rule interleaving_right, (rule interleaving_left)+,
        rule interleaving_nil2)
  have all: "\<forall>f\<in>set [''src/b.h'', ''src/a.cpp'']. \<exists>v. snd (getFileFormatDiff sys0 f ''clang-format'') = Inr v"
    by (simp add: diff_a diff_b)
  have il: "interleaving (map (\<lambda>f. fst (check_file sys0 ''clang-format'' f)) [''src/b.h'', ''src/a.cpp'']) ?tr"
    using i4 by (simp add: check_file_a check_file_b)
  from flag_assigned_outside_mutex [of sys0 "''src/b.h''" "''clang-format''" "[''src/b.h'', ''src/a.cpp'']"]
    all il
  show ?thesis
    by (simp add: diff_a diff_b)
qed

section \<open>Parsing the command line\<close>

lemma skip_nonoptions_ge: "i \<le> skip_nonoptions a i"
proof (induction a i rule: skip_nonoptions.induct)
  case (1 a i)
  then show ?case by (subst skip_nonoptions.simps) auto
qed

lemma skip_nonoptions_le: "i \<le> length a \<Longrightarrow> skip_nonoptions a i \<le> length a"
proof (induction a i rule: skip_nonoptions.induct)
  case (1 a i)
  then show ?case by (subst skip_nonoptions.simps) auto
qed

lemma skip_nonoptions_stop:
  "skip_nonoptions a i < length a \<Longrightarrow> \<not> NONOPTION_P (a ! skip_nonoptions a i)"
proof (induction a i rule: skip_nonoptions.induct)
  case (1 a i)
  show ?case
  proof (cases "i < length a \<and> NONOPTION_P (a ! i)")
    case True
    then have e: "skip_nonoptions a i = skip_nonoptions a (i + 1)"
      by (subst skip_nonoptions.simps) simp
    from "1.IH"[OF True] "1.prems" show ?thesis unfolding e by simp
  next
    case False
    then have e: "skip_nonoptions a i = i" by (subst skip_nonoptions.simps) auto
    with False "1.prems" show ?thesis by simp
  qed
qed

lemma skip_nonoptions_drop:
  "drop (skip_nonoptions a i) a = dropWhile NONOPTION_P (drop i a)"
proof (induction a i rule: skip_nonoptions.induct)
  case (1 a i)
  show ?case
  proof (cases "i < length a \<and> NONOPTION_P (a ! i)")
    case True
    then have e: "skip_nonoptions a i = skip_nonoptions a (i + 1)"
      by (subst skip_nonoptions.simps) simp
    from True have "drop i a = a ! i # drop (i + 1) a" by (simp add: Cons_nth_drop_Suc)
    with "1.IH"[OF True] True show ?thesis unfolding e by simp
  next
    case False
    then have e: "skip_nonoptions a i = i" by (subst skip_nonoptions.simps) auto
    show ?thesis
    proof (cases "i < length a")
      case True
      with False have "drop i a = a ! i # drop (i + 1) a" "\<not> NONOPTION_P (a ! i)"
        by (simp_all add: Cons_nth_drop_Suc)
      then show ?thesis unfolding e by simp
    next
      case False
      then show ?thesis unfolding e by simp
    qed
  qed
qed

lemma exchange_facts:
  assumes "1 \<le> first_nonopt d" "first_nonopt d \<le> last_nonopt d" "last_nonopt d \<le> optind d"
    "optind d \<le> length (argv d)"
  shows "length (argv (exchange d)) = length (argv d)"
    and "argv (exchange d) ! 0 = argv d ! 0"
    and "optind (exchange d) = optind d"
    and "nextchar (exchange d) = nextchar d"
    and "ordering' (exchange d) = ordering' d"
    and "first_nonopt (exchange d) = first_nonopt d + (optind d - last_nonopt d)"
    and "last_nonopt (exchange d) = optind d"
    and "drop (optind d) (argv (exchange d)) = drop (optind d) (argv d)"
  using assms by (auto simp: exchange_def Let_def nth_append)

lemma permute_skip_inv:
  assumes "getopt_inv d0"
  shows "at_option d0 (permute_skip d0) \<and>
         drop (optind (permute_skip d0)) (argv (permute_skip d0)) = to_scan d0"
proof (cases "ordering' d0 = PERMUTE")
  case False
  then have "permute_skip d0 = d0"
    using assms by (simp add: permute_skip_def Let_def getopt_inv_def min_def)
  with False assms show ?thesis by (simp add: at_option_def getopt_inv_def to_scan_def)
next
  case True
  let ?d1 = "d0\<lparr>last_nonopt := min (last_nonopt d0) (optind d0),
                first_nonopt := min (first_nonopt d0) (optind d0)\<rparr>"
  have d1: "?d1 = d0" using assms by (simp add: getopt_inv_def min_def)
  let ?d2 = "if first_nonopt d0 \<noteq> last_nonopt d0 \<and> last_nonopt d0 \<noteq> optind d0
                then exchange d0
                else if last_nonopt d0 \<noteq> optind d0
                then d0\<lparr>first_nonopt := optind d0\<rparr>
                else d0"
  have ps: "permute_skip d0 =
      ?d2\<lparr>optind := skip_nonoptions (argv ?d2) (optind ?d2),
           last_nonopt := skip_nonoptions (argv ?d2) (optind ?d2)\<rparr>"
    unfolding permute_skip_def d1 Let_def using True by simp
  have ex: "length (argv (exchange d0)) = length (argv d0)" "argv (exchange d0) ! 0 = argv d0 ! 0"
    "optind (exchange d0) = optind d0" "nextchar (exchange d0) = nextchar d0"
    "ordering' (exchange d0) = ordering' d0"
    "first_nonopt (exchange d0) = first_nonopt d0 + (optind d0 - last_nonopt d0)"
    "drop (optind d0) (argv (exchange d0)) = drop (optind d0) (argv d0)"
    using assms exchange_facts[of d0] by (simp_all add: getopt_inv_def)
  have d2: "length (argv ?d2) = length (argv d0)" "argv ?d2 ! 0 = argv d0 ! 0"
    "optind ?d2 = optind d0" "nextchar ?d2 = []" "1 \<le> first_nonopt ?d2"
    "first_nonopt ?d2 \<le> optind d0" "ordering' ?d2 = ordering' d0"
    "drop (optind d0) (argv ?d2) = drop (optind d0) (argv d0)"
    using assms ex by (auto simp: getopt_inv_def)
  have le: "skip_nonoptions (argv ?d2) (optind ?d2) \<le> length (argv ?d2)"
    by (rule skip_nonoptions_le) (use assms d2 in \<open>simp add: getopt_inv_def\<close>)
  have ge: "optind ?d2 \<le> skip_nonoptions (argv ?d2) (optind ?d2)"
    by (rule skip_nonoptions_ge)
  have stop: "skip_nonoptions (argv ?d2) (optind ?d2) < length (argv ?d2) \<Longrightarrow>
      \<not> NONOPTION_P (argv ?d2 ! skip_nonoptions (argv ?d2) (optind ?d2))"
    by (rule skip_nonoptions_stop)
  have dr: "drop (skip_nonoptions (argv ?d2) (optind ?d2)) (argv ?d2) = to_scan d0"
    unfolding skip_nonoptions_drop d2 to_scan_def using True by simp
  have a: "at_option d0 (permute_skip d0)"
    unfolding ps at_option_def using d2 le ge stop by simp
  have b: "drop (optind (permute_skip d0)) (argv (permute_skip d0)) = to_scan d0"
    unfolding ps using dr by simp
  from a b show ?thesis by simp
qed

lemma double_dash_inv:
  assumes "at_option d0 d"
  shows "at_option d0 (double_dash d)"
proof (cases "optind d \<noteq> length (argv d) \<and> argv d ! optind d = ''--''")
  case False
  then have "double_dash d = d" by (auto simp: double_dash_def Let_def)
  with assms show ?thesis by simp
next
  case True
  let ?d1 = "d\<lparr>optind := optind d + 1\<rparr>"
  have b: "1 \<le> first_nonopt ?d1" "first_nonopt ?d1 \<le> last_nonopt ?d1" "last_nonopt ?d1 \<le> optind ?d1"
    "optind ?d1 \<le> length (argv ?d1)"
    using assms True by (auto simp: at_option_def)
  note ex = exchange_facts[OF b]
  let ?d2 = "if first_nonopt ?d1 \<noteq> last_nonopt ?d1 \<and> last_nonopt ?d1 \<noteq> optind ?d1
                         then exchange ?d1
                         else if first_nonopt ?d1 = last_nonopt ?d1
                         then ?d1\<lparr>first_nonopt := optind ?d1\<rparr>
                         else ?d1"
  have dd: "double_dash d = ?d2\<lparr>last_nonopt := length (argv d), optind := length (argv d)\<rparr>"
    using True by (simp add: double_dash_def Let_def)
  have d2: "length (argv ?d2) = length (argv d)" "argv ?d2 ! 0 = argv d ! 0" "nextchar ?d2 = []"
    "1 \<le> first_nonopt ?d2" "first_nonopt ?d2 \<le> length (argv d)" "ordering' ?d2 = ordering' d"
    using assms True ex by (auto simp: at_option_def)
  show ?thesis
    unfolding dd at_option_def using d2 assms by (simp add: at_option_def)
qed

lemma double_dash_end:
  "optind d < length (argv d) \<Longrightarrow> argv d ! optind d = ''--'' \<Longrightarrow>
   optind (double_dash d) = length (argv d)"
  by (simp add: double_dash_def Let_def)

lemma double_dash_other:
  "optind d = length (argv d) \<or> argv d ! optind d \<noteq> ''--'' \<Longrightarrow> double_dash d = d"
  by (auto simp: double_dash_def Let_def)

lemma drop_Cons_facts:
  assumes "drop i xs = a # rest"
  shows "i < length xs" and "xs ! i = a" and "drop (Suc i) xs = rest"
    and "rest = [] \<longleftrightarrow> Suc i = length xs"
    and "rest \<noteq> [] \<Longrightarrow> xs ! Suc i = hd rest"
    and "drop (Suc (Suc i)) xs = tl rest"
proof -
  show lt: "i < length xs" using assms by (cases "i < length xs") auto
  with assms show "xs ! i = a" by (simp add: Cons_nth_drop_Suc[symmetric])
  from lt assms show r: "drop (Suc i) xs = rest" by (simp add: Cons_nth_drop_Suc[symmetric])
  from r lt show "rest = [] \<longleftrightarrow> Suc i = length xs" by auto
  from r show "rest \<noteq> [] \<Longrightarrow> xs ! Suc i = hd rest" by (auto simp: hd_drop_conv_nth)
  from r show "drop (Suc (Suc i)) xs = tl rest"
    by (metis drop_Suc tl_drop)
qed

lemma process_long_option_scan:
  assumes ao: "at_option d0 d" and dr: "drop (optind d) (argv d) = a # rest"
    and l: "a ! 1 = CHR ''-''"
    and p: "process_long_option (d\<lparr>nextchar := drop 2 a\<rparr>) = (o', d')"
  shows "length (argv d') = length (argv d0) \<and> argv d' ! 0 = argv d0 ! 0 \<and>
         (option_at a rest = Inl UnknownOption \<longrightarrow>
            o' = 63 \<and> (\<not> short_group a \<longrightarrow> argv d' ! (optind d' - 1) = a)) \<and>
         (option_at a rest = Inl MissingValue \<longrightarrow>
            o' = 58 \<and> argv d' ! (optind d' - 1) = a) \<and>
         (\<forall>rest'. option_at a rest = Inr rest' \<longrightarrow>
            o' = 99 \<and> getopt_inv d' \<and> ordering' d' = ordering' d0 \<and>
            drop (optind d') (argv d') = rest' \<and> optind d0 < optind d')"
proof -
  note f = drop_Cons_facts[OF dr]
  have e: "dropWhile (\<lambda>c. c \<noteq> CHR ''='') (drop 2 a) \<noteq> [] \<longleftrightarrow> CHR ''='' \<in> set (drop 2 a)"
    by (auto simp: dropWhile_eq_Nil_conv)
  show ?thesis
  proof (cases rest)
    case Nil
    with ao l p f e show ?thesis
      by (auto simp: process_long_option_def option_at_def Let_def at_option_def getopt_inv_def
               short_group_def split: if_splits)
  next
    case (Cons v r)
    with f have "Suc (optind d) < length (argv d)" by auto
    with Cons ao l p f e show ?thesis
      by (auto simp: process_long_option_def option_at_def Let_def at_option_def getopt_inv_def
               short_group_def split: if_splits)
  qed
qed

lemma short_option_scan:
  assumes ao: "at_option d0 d" and dr: "drop (optind d) (argv d) = a # rest"
    and l: "a ! 1 \<noteq> CHR ''-''" and n: "\<not> NONOPTION_P a"
    and p: "short_option (d\<lparr>nextchar := drop 1 a\<rparr>) = (o', d')"
  shows "length (argv d') = length (argv d0) \<and> argv d' ! 0 = argv d0 ! 0 \<and>
         (option_at a rest = Inl UnknownOption \<longrightarrow>
            o' = 63 \<and> (\<not> short_group a \<longrightarrow> argv d' ! (optind d' - 1) = a)) \<and>
         (option_at a rest = Inl MissingValue \<longrightarrow>
            o' = 58 \<and> argv d' ! (optind d' - 1) = a) \<and>
         (\<forall>rest'. option_at a rest = Inr rest' \<longrightarrow>
            o' = 99 \<and> getopt_inv d' \<and> ordering' d' = ordering' d0 \<and>
            drop (optind d') (argv d') = rest' \<and> optind d0 < optind d')"
proof -
  note f = drop_Cons_facts[OF dr]
  from n obtain c cs where a: "a = CHR ''-'' # c # cs"
    by (cases a; cases "tl a") (auto simp: NONOPTION_P_def)
  show ?thesis
  proof (cases rest)
    case Nil
    with ao l p f a show ?thesis
      by (auto simp: short_option_def option_at_def Let_def at_option_def getopt_inv_def
               optstring_def short_group_def split: if_splits)
  next
    case (Cons v r)
    with f have "Suc (optind d) < length (argv d)" by auto
    with Cons ao l p f a show ?thesis
      by (auto simp: short_option_def option_at_def Let_def at_option_def getopt_inv_def
               optstring_def short_group_def split: if_splits)
  qed
qed

lemma getopt_long_scan:
  assumes inv: "getopt_inv d0" and ne: "argv d0 \<noteq> []" and g: "getopt_long d0 = (o', d')"
  shows "length (argv d') = length (argv d0) \<and> argv d' ! 0 = argv d0 ! 0 \<and>
         (case to_scan d0 of
            [] \<Rightarrow> o' = - 1
          | a # rest \<Rightarrow>
              if a = ''--'' \<or> NONOPTION_P a then o' = - 1
              else (option_at a rest = Inl UnknownOption \<longrightarrow>
                      o' = 63 \<and> (\<not> short_group a \<longrightarrow> argv d' ! (optind d' - 1) = a)) \<and>
                   (option_at a rest = Inl MissingValue \<longrightarrow>
                      o' = 58 \<and> argv d' ! (optind d' - 1) = a) \<and>
                   (\<forall>rest'. option_at a rest = Inr rest' \<longrightarrow>
                      o' = 99 \<and> getopt_inv d' \<and> ordering' d' = ordering' d0 \<and>
                      drop (optind d') (argv d') = rest' \<and> optind d0 < optind d'))"
proof -
  let ?p = "permute_skip d0"
  let ?d = "double_dash ?p"
  from permute_skip_inv[OF inv]
  have ap: "at_option d0 ?p" and dr: "drop (optind ?p) (argv ?p) = to_scan d0" by auto
  have ao: "at_option d0 ?d" using ap by (rule double_dash_inv)
  have n0: "nextchar d0 = []" using inv by (simp add: getopt_inv_def)
  have gl: "getopt_long d0 =
     (if optind ?d = length (argv d0)
      then (- 1, if first_nonopt ?d \<noteq> last_nonopt ?d then ?d\<lparr>optind := first_nonopt ?d\<rparr> else ?d)
      else if NONOPTION_P (argv ?d ! optind ?d)
      then (if ordering' ?d = REQUIRE_ORDER then (- 1, ?d)
            else (1, ?d\<lparr>optarg := argv ?d ! optind ?d, optind := optind ?d + 1\<rparr>))
      else if argv ?d ! optind ?d ! 1 = CHR ''-''
      then process_long_option (?d\<lparr>nextchar := drop 2 (argv ?d ! optind ?d)\<rparr>)
      else short_option (?d\<lparr>nextchar := drop 1 (argv ?d ! optind ?d)\<rparr>))"
    using ne n0 by (simp add: getopt_long_def Let_def)
  have lenp: "length (argv ?p) = length (argv d0)" using ap by (simp add: at_option_def)
  have lend: "length (argv ?d) = length (argv d0)" "argv ?d ! 0 = argv d0 ! 0"
    using ao by (simp_all add: at_option_def)
  show ?thesis
  proof (cases "to_scan d0")
    case Nil
    with dr ap have "optind ?p = length (argv ?p)" by (simp add: at_option_def)
    then have "?d = ?p" by (simp add: double_dash_other)
    with \<open>optind ?p = length (argv ?p)\<close> lenp have "optind ?d = length (argv d0)" by simp
    with g gl Nil lend show ?thesis by (auto split: if_splits)
  next
    case (Cons a rest)
    with dr have dr': "drop (optind ?p) (argv ?p) = a # rest" by simp
    note f = drop_Cons_facts[OF dr']
    show ?thesis
    proof (cases "a = ''--''")
      case True
      with f have "optind ?d = length (argv ?p)" by (simp add: double_dash_end)
      with lenp have "optind ?d = length (argv d0)" by simp
      with g gl Cons True lend show ?thesis by (auto split: if_splits)
    next
      case False
      with f have same: "?d = ?p" by (simp add: double_dash_other)
      from f lenp have nend: "optind ?p \<noteq> length (argv d0)" by simp
      show ?thesis
      proof (cases "NONOPTION_P a")
        case True
        with ap f have "ordering' ?p = REQUIRE_ORDER"
          by (cases "ordering' ?p") (auto simp: at_option_def)
        with g gl same nend True f have "o' = - 1" "d' = ?p" by auto
        with Cons True lend same show ?thesis by simp
      next
        case nn: False
        show ?thesis
        proof (cases "a ! 1 = CHR ''-''")
          case True
          with g gl same nend nn f
          have "process_long_option (?p\<lparr>nextchar := drop 2 a\<rparr>) = (o', d')" by simp
          from process_long_option_scan[OF ap dr' True this] Cons False nn
          show ?thesis by simp
        next
          case nl: False
          with g gl same nend nn f
          have "short_option (?p\<lparr>nextchar := drop 1 a\<rparr>) = (o', d')" by simp
          from short_option_scan[OF ap dr' nl nn this] Cons False nn
          show ?thesis by simp
        qed
      qed
    qed
  qed
qed

lemma NONOPTION_P_double_dash: "NONOPTION_P a \<Longrightarrow> a \<noteq> ''--''"
  by (auto simp: NONOPTION_P_def)

lemma scan_options_dropWhile:
  "scan_options False (dropWhile NONOPTION_P xs) = scan_options False xs"
proof (induction xs)
  case Nil
  show ?case by simp
next
  case (Cons a xs)
  then show ?case
    by (cases "NONOPTION_P a") (auto simp: scan_options.simps(2) dest: NONOPTION_P_double_dash)
qed

lemma scan_options_to_scan:
  "scan_options (ordering' d = REQUIRE_ORDER) (to_scan d) =
   scan_options (ordering' d = REQUIRE_ORDER) (drop (optind d) (argv d))"
  by (cases "ordering' d") (simp_all add: to_scan_def scan_options_dropWhile)

text \<open>
  The loop of \<^verbatim>\<open>parseSettings\<close> ends for every command line, and it ends in
  \<^verbatim>\<open>exit(1)\<close> exactly when the command line has a fault.
\<close>

lemma parse_loop_scan:
  "getopt_inv d \<Longrightarrow> argv d \<noteq> [] \<Longrightarrow>
   (case scan_options (ordering' d = REQUIRE_ORDER) (drop (optind d) (argv d)) of
      Some (f, x) \<Rightarrow>
        \<exists>a. parse_loop d s =
              Some (Cerr (option_error (f = MissingValue) a) # printHelp (argv d ! 0), Inl 1) \<and>
            (\<not> short_group x \<longrightarrow> a = x)
    | None \<Rightarrow> \<exists>d' s'. parse_loop d s = Some ([], Inr (d', s')))"
proof (induction "length (argv d) - optind d" arbitrary: d s rule: less_induct)
  case less
  let ?posix = "ordering' d = REQUIRE_ORDER"
  obtain o' d' where g: "getopt_long d = (o', d')" by (cases "getopt_long d")
  note st = getopt_long_scan[OF less.prems g]
  then have len: "length (argv d') = length (argv d)" and a0: "argv d' ! 0 = argv d ! 0"
    by auto
  have sc: "scan_options ?posix (drop (optind d) (argv d)) = scan_options ?posix (to_scan d)"
    by (simp add: scan_options_to_scan)
  have stop: "o' = - 1 \<Longrightarrow> parse_loop d s = Some ([], Inr (d', s))"
    using g by (subst parse_loop.simps) simp
  show ?case
  proof (cases "to_scan d")
    case Nil
    with st have "o' = - 1" by simp
    from stop[OF this] Nil show ?thesis unfolding sc by simp
  next
    case (Cons a rest)
    show ?thesis
    proof (cases "a = ''--'' \<or> NONOPTION_P a")
      case True
      with st Cons have o: "o' = - 1" by simp
      have "scan_options ?posix (a # rest) = None"
      proof (cases "a = ''--''")
        case True
        then show ?thesis by (simp add: scan_options.simps(2))
      next
        case False
        with True have n: "NONOPTION_P a" by simp
        have "?posix"
        proof (rule ccontr)
          assume "\<not> ?posix"
          then have "ordering' d = PERMUTE" by (cases "ordering' d") auto
          with Cons have "dropWhile NONOPTION_P (drop (optind d) (argv d)) = a # rest"
            by (simp add: to_scan_def)
          then have "\<not> NONOPTION_P a" by (metis hd_dropWhile list.distinct(1) list.sel(1))
          with n show False by simp
        qed
        with False n show ?thesis by (simp add: scan_options.simps(2))
      qed
      with stop[OF o] Cons show ?thesis unfolding sc by simp
    next
      case False
      then have na: "a \<noteq> ''--''" "\<not> NONOPTION_P a" by auto
      with st Cons have u: "option_at a rest = Inl UnknownOption \<Longrightarrow>
                  o' = 63 \<and> (\<not> short_group a \<longrightarrow> argv d' ! (optind d' - 1) = a)"
        and m: "option_at a rest = Inl MissingValue \<Longrightarrow>
                  o' = 58 \<and> argv d' ! (optind d' - 1) = a"
        and c: "\<And>rest'. option_at a rest = Inr rest' \<Longrightarrow>
                  o' = 99 \<and> getopt_inv d' \<and> ordering' d' = ordering' d \<and>
                  drop (optind d') (argv d') = rest' \<and> optind d < optind d'"
        by auto
      show ?thesis
      proof (cases "option_at a rest")
        case (Inl f)
        with na have s1: "scan_options ?posix (a # rest) = Some (f, a)"
          by (simp add: scan_options.simps(2))
        show ?thesis
        proof (cases f)
          case UnknownOption
          with Inl u have "o' = 63" and w: "\<not> short_group a \<longrightarrow> argv d' ! (optind d' - 1) = a"
            by simp_all
          with g a0 have "parse_loop d s =
              Some (Cerr (option_error False (argv d' ! (optind d' - 1))) # printHelp (argv d ! 0), Inl 1)"
            by (subst parse_loop.simps) (simp add: option_error_def)
          with w have "\<exists>a'. parse_loop d s =
              Some (Cerr (option_error False a') # printHelp (argv d ! 0), Inl 1) \<and>
              (\<not> short_group a \<longrightarrow> a' = a)"
            by blast
          with s1 UnknownOption Cons show ?thesis unfolding sc by simp
        next
          case MissingValue
          with Inl m have "o' = 58" and w: "argv d' ! (optind d' - 1) = a" by simp_all
          with g a0 have "parse_loop d s =
              Some (Cerr (option_error True (argv d' ! (optind d' - 1))) # printHelp (argv d ! 0), Inl 1)"
            by (subst parse_loop.simps) (simp add: option_error_def)
          with w have "\<exists>a'. parse_loop d s =
              Some (Cerr (option_error True a') # printHelp (argv d ! 0), Inl 1) \<and>
              (\<not> short_group a \<longrightarrow> a' = a)"
            by blast
          with s1 MissingValue Cons show ?thesis unfolding sc by simp
        qed
      next
        case (Inr rest')
        with na have s1: "scan_options ?posix (a # rest) = scan_options ?posix rest'"
          by (simp add: scan_options.simps(2))
        from c[OF Inr] have o: "o' = 99" and inv: "getopt_inv d'"
          and ord: "ordering' d' = ordering' d" and dr: "drop (optind d') (argv d') = rest'"
          and lt: "optind d < optind d'" by auto
        from inv have "optind d' \<le> length (argv d')" by (simp add: getopt_inv_def)
        with lt len have me: "length (argv d') - optind d' < length (argv d) - optind d" by simp
        from less.prems len have ne: "argv d' \<noteq> []" by auto
        have pl: "parse_loop d s = parse_loop d' (s\<lparr>clang_format_exe := optarg d'\<rparr>)"
          using g o by (subst parse_loop.simps) simp
        from less.hyps[OF me inv ne, of "s\<lparr>clang_format_exe := optarg d'\<rparr>"]
        show ?thesis
          unfolding sc Cons s1 pl ord dr a0 .
      qed
    qed
  qed
qed

lemma getopt_inv_init: "args \<noteq> [] \<Longrightarrow> getopt_inv (getopt_init posix args)"
  by (cases args) (auto simp: getopt_inv_def getopt_init_def)

lemma parse_loop_init_scan:
  "(case scan_options posix (drop 1 args) of
      Some (f, x) \<Rightarrow>
        \<exists>a. parse_loop (getopt_init posix args) s =
              Some (Cerr (option_error (f = MissingValue) a) # printHelp (args ! 0), Inl 1) \<and>
            (\<not> short_group x \<longrightarrow> a = x)
    | None \<Rightarrow> \<exists>d' s'. parse_loop (getopt_init posix args) s = Some ([], Inr (d', s')))"
proof (cases "args = []")
  case True
  then show ?thesis
    by (subst parse_loop.simps) (simp add: getopt_long_def getopt_init_def)
next
  case False
  have o: "(ordering' (getopt_init posix args) = REQUIRE_ORDER) = posix"
    by (simp add: getopt_init_def)
  have i: "argv (getopt_init posix args) = args" "optind (getopt_init posix args) = 1"
    by (simp_all add: getopt_init_def)
  from parse_loop_scan[OF getopt_inv_init[OF False], of posix s] False
  show ?thesis unfolding o i by simp
qed

lemma parseSettings_scan:
  "(case scan_options posix (drop 1 args) of
      Some (f, x) \<Rightarrow>
        \<exists>a. parseSettings posix args =
              Some (Cerr (option_error (f = MissingValue) a) # printHelp (args ! 0), Inl 1) \<and>
            (\<not> short_group x \<longrightarrow> a = x)
    | None \<Rightarrow> \<exists>settings. parseSettings posix args = Some ([], Inr settings))"
  using parse_loop_init_scan[of posix args default_Settings]
  by (auto simp: parseSettings_def split: option.splits)

lemma parseSettings_total: "\<exists>evs r. parseSettings posix args = Some (evs, r)"
  using parseSettings_scan[of posix args] by (auto split: option.splits)

lemma parseSettings_exits:
  assumes "parseSettings posix args = Some (evs, Inl n)"
  shows "n = 1 \<and> (\<exists>m a. evs = Cerr (option_error m a) # printHelp (args ! 0))"
  using parseSettings_scan[of posix args] assms by (auto split: option.splits)

lemma cout_of_printHelp: "cout_of (printHelp exe_name) = usage exe_name"
  by (simp add: printHelp_def usage_def setw_right_def numeral_2_eq_2)

lemma cerr_of_printHelp: "cerr_of (printHelp exe_name) = []"
  by (simp add: printHelp_def)

section \<open>Option errors\<close>

text \<open>A command line without a fault parses, and nothing is written.\<close>

lemma no_fault_parses:
  "scan_options posix (drop 1 args) = None \<Longrightarrow>
   \<exists>settings. parseSettings posix args = Some ([], Inr settings)"
  using parseSettings_scan[of posix args] by simp

text \<open>
  C7 (amended). When the command line has a fault, an unknown option or an option without
  its value, the run is one line on \<^verbatim>\<open>std::cerr\<close>, \<^verbatim>\<open>Unknown options\<close> or
  \<^verbatim>\<open>The option ... requires an argument\<close>, followed by the usage text on
  \<^verbatim>\<open>std::cout\<close>, and the exit code 1: no file is looked for. The line names the argument
  at fault, unless that is a short option with further letters behind it. The options are
  scanned as \<open>scan_options\<close> says: up to \<^verbatim>\<open>--\<close>, behind the values that options take,
  and, when \<^verbatim>\<open>POSIXLY_CORRECT\<close> is set, only up to the first argument that is not an
  option.
\<close>

theorem option_error_exits_one:
  assumes "scan_options (env_POSIXLY_CORRECT sys) (drop 1 args) = Some (f, x)"
  shows "\<exists>a. main sys args =
           Some (Cerr (option_error (f = MissingValue) a) # printHelp (args ! 0), ExitCode 1) \<and>
         (\<not> short_group x \<longrightarrow> a = x) \<and>
         cerr_of (Cerr (option_error (f = MissingValue) a) # printHelp (args ! 0)) =
           option_error (f = MissingValue) a \<and>
         cout_of (Cerr (option_error (f = MissingValue) a) # printHelp (args ! 0)) =
           usage (args ! 0)"
proof -
  from parseSettings_scan[of "env_POSIXLY_CORRECT sys" args] assms
  obtain a where "parseSettings (env_POSIXLY_CORRECT sys) args =
      Some (Cerr (option_error (f = MissingValue) a) # printHelp (args ! 0), Inl 1)"
    and w: "\<not> short_group x \<longrightarrow> a = x"
    by auto
  then have "main sys args =
      Some (Cerr (option_error (f = MissingValue) a) # printHelp (args ! 0), ExitCode 1)"
    by (simp add: main_def)
  with w show ?thesis
    by (auto simp: cout_of_printHelp cerr_of_printHelp)
qed

lemma scan_bogus: "scan_options False [''--bogus''] = Some (UnknownOption, ''--bogus'')"
  by code_simp

lemma scan_c: "scan_options False [''src'', ''-c''] = Some (MissingValue, ''-c'')"
  by code_simp

lemma short_group_examples: "\<not> short_group ''--bogus''" "\<not> short_group ''-c''" "short_group ''-xc''"
  by (simp_all add: short_group_def)

lemma main_bogus:
  "main sys0 [''prog'', ''--bogus''] =
     Some (Cerr (''Unknown options --bogus'' @ [newline]) # printHelp ''prog'', ExitCode 1)"
  by code_simp

theorem option_error_exits_one_witness:
  "scan_options (env_POSIXLY_CORRECT sys0) (drop 1 [''prog'', ''--bogus'']) =
     Some (UnknownOption, ''--bogus'') \<and>
   scan_options (env_POSIXLY_CORRECT sys0) (drop 1 [''prog'', ''src'', ''-c'']) =
     Some (MissingValue, ''-c'') \<and>
   \<not> short_group ''--bogus'' \<and> \<not> short_group ''-c'' \<and>
   main sys0 [''prog'', ''--bogus''] =
     Some (Cerr (''Unknown options --bogus'' @ [newline]) # printHelp ''prog'', ExitCode 1) \<and>
   main sys0 [''prog'', ''src'', ''-c''] =
     Some (Cerr (''The option -c requires an argument'' @ [newline]) # printHelp ''prog'',
           ExitCode 1) \<and>
   cout_of (Cerr (''Unknown options --bogus'' @ [newline]) # printHelp ''prog'') = usage ''prog''"
proof -
  have e: "env_POSIXLY_CORRECT sys0 = False" by (simp add: sys0_def)
  have s1: "scan_options (env_POSIXLY_CORRECT sys0) (drop 1 [''prog'', ''--bogus'']) =
      Some (UnknownOption, ''--bogus'')"
    unfolding e using scan_bogus by simp
  have s2: "scan_options (env_POSIXLY_CORRECT sys0) (drop 1 [''prog'', ''src'', ''-c'']) =
      Some (MissingValue, ''-c'')"
    unfolding e using scan_c by simp
  from option_error_exits_one [OF s1] short_group_examples
  have m1: "main sys0 [''prog'', ''--bogus''] =
      Some (Cerr (''Unknown options --bogus'' @ [newline]) # printHelp ''prog'', ExitCode 1)"
    and c: "cout_of (Cerr (''Unknown options --bogus'' @ [newline]) # printHelp ''prog'') =
      usage ''prog''"
    by (auto simp: option_error_def)
  from option_error_exits_one [OF s2] short_group_examples
  have m2: "main sys0 [''prog'', ''src'', ''-c''] =
      Some (Cerr (''The option -c requires an argument'' @ [newline]) # printHelp ''prog'',
            ExitCode 1)"
    by (auto simp: option_error_def)
  from s1 s2 m1 m2 c short_group_examples show ?thesis by simp
qed

text \<open>
  For \<^verbatim>\<open>prog -xc\<close> the line on \<^verbatim>\<open>std::cerr\<close> names the program: \<^verbatim>\<open>getopt_long\<close> has
  not moved \<open>optind\<close> past the argument when it reports the letter \<open>x\<close>.
\<close>

lemma main_xc:
  "main sys0 [''prog'', ''-xc''] =
     Some (Cerr (''Unknown options prog'' @ [newline]) # printHelp ''prog'', ExitCode 1)"
  by code_simp

lemma main_posix_bogus:
  "main sys0_posix [''prog'', ''a'', ''--bogus''] =
     Some ([IsDirectory ''a'', IsDirectory ''--bogus''], ExitCode 0)"
  by code_simp

text \<open>
  The usage text does not go to the error stream: for \<^verbatim>\<open>--bogus\<close> the error stream
  holds the line about the option and nothing else, and the usage text is on
  \<^verbatim>\<open>std::cout\<close>. And an argument that looks like an unknown option is not always one:
  with \<^verbatim>\<open>POSIXLY_CORRECT\<close> set, the options of \<^verbatim>\<open>prog a --bogus\<close> end at \<open>a\<close>,
  \<^verbatim>\<open>--bogus\<close> is an input path, discovery runs on both and the exit code is 0.
\<close>

theorem usage_on_cout_counterexample:
  "main sys0 [''prog'', ''--bogus''] =
     Some (Cerr (''Unknown options --bogus'' @ [newline]) # printHelp ''prog'', ExitCode 1) \<and>
   cerr_of (Cerr (''Unknown options --bogus'' @ [newline]) # printHelp ''prog'') =
     ''Unknown options --bogus'' @ [newline] \<and>
   cout_of (Cerr (''Unknown options --bogus'' @ [newline]) # printHelp ''prog'') =
     ''Usage: prog [options] <inputs>'' @ [newline] @
     ''Checks the given inputs for code style changes'' @ [newline] @
     [newline] @
     ''Options:'' @ [newline] @
     ''  -c, --clang-format    The clang-format executable to use'' @ [newline] \<and>
   main sys0_posix [''prog'', ''a'', ''--bogus''] =
     Some ([IsDirectory ''a'', IsDirectory ''--bogus''], ExitCode 0)"
proof -
  have "cerr_of (Cerr (''Unknown options --bogus'' @ [newline]) # printHelp ''prog'') =
     ''Unknown options --bogus'' @ [newline]"
    by (simp add: cerr_of_printHelp)
  moreover have "cout_of (Cerr (''Unknown options --bogus'' @ [newline]) # printHelp ''prog'') =
     usage ''prog''"
    by (simp add: cout_of_printHelp)
  ultimately show ?thesis unfolding usage_def using main_bogus main_posix_bogus by simp
qed

section \<open>No input paths\<close>




section \<open>The exit code\<close>

lemma check_file_cases:
  "(\<exists>e err. check_file sys exe f = (e, Inl err) \<and> snd (getFileFormatDiff sys f exe) = Inl err) \<or>
   (\<exists>e v. check_file sys exe f = (e, Inr (v \<noteq> None)) \<and> snd (getFileFormatDiff sys f exe) = Inr v)"
  by (cases "getFileFormatDiff sys f exe")
     (auto simp: check_file_def split: sum.splits option.splits)

lemma check_files_flag:
  "check_files sys exe files flag evs = (evs', Inr b) \<Longrightarrow>
   b = (flag \<or> (\<exists>f\<in>set files. \<exists>d. snd (getFileFormatDiff sys f exe) = Inr (Some d)))"
proof (induction files arbitrary: flag evs)
  case Nil
  then show ?case by simp
next
  case (Cons g rest)
  from check_file_cases[of sys exe g] show ?case
  proof (elim disjE exE conjE)
    fix e err
    assume "check_file sys exe g = (e, Inl err)"
    with Cons.prems show ?thesis by simp
  next
    fix e v
    assume c: "check_file sys exe g = (e, Inr (v \<noteq> None))"
      and v: "snd (getFileFormatDiff sys g exe) = Inr v"
    with Cons.prems have
      "check_files sys exe rest (if v \<noteq> None then True else flag) (evs @ e) = (evs', Inr b)"
      by simp
    from Cons.IH[OF this] v show ?thesis by (cases v) auto
  qed
qed

text \<open>
  C1 (amended). In a run whose arguments parse, whose discovery returns its list of files
  (no query of the file system throws, and every walk ends) and in which every check
  returns, \<^verbatim>\<open>main\<close> returns; its exit code is 2 exactly when the check of some
  discovered file gave a verdict, and 0 exactly when none did. And in any run at all, an
  exit code other than 1 is the return of \<^verbatim>\<open>main\<close>: it is 2 or 0, 2 exactly when some
  discovered file has a verdict.
\<close>

theorem main_exit_code:
  "(\<forall>evs0 settings evs1 files.
      parseSettings (env_POSIXLY_CORRECT sys) args = Some (evs0, Inr settings) \<and>
      discover sys (inputs settings) [] evs0 = Some (evs1, Inr files) \<and>
      (\<forall>f\<in>set files. \<exists>v. snd (getFileFormatDiff sys f (clang_format_exe settings)) = Inr v) \<longrightarrow>
      (\<exists>evs c. main sys args = Some (evs, ExitCode c) \<and>
         (c = 2 \<longleftrightarrow> (\<exists>f\<in>set files. \<exists>d.
              snd (getFileFormatDiff sys f (clang_format_exe settings)) = Inr (Some d))) \<and>
         (c = 0 \<longleftrightarrow> \<not> (\<exists>f\<in>set files. \<exists>d.
              snd (getFileFormatDiff sys f (clang_format_exe settings)) = Inr (Some d))))) \<and>
   (\<forall>evs c. main sys args = Some (evs, ExitCode c) \<and> c \<noteq> 1 \<longrightarrow>
      (\<exists>evs0 settings evs1 files.
         parseSettings (env_POSIXLY_CORRECT sys) args = Some (evs0, Inr settings) \<and>
         discover sys (inputs settings) [] evs0 = Some (evs1, Inr files) \<and>
         (c = 2 \<longleftrightarrow> (\<exists>f\<in>set files. \<exists>d.
              snd (getFileFormatDiff sys f (clang_format_exe settings)) = Inr (Some d))) \<and>
         (c = 0 \<longleftrightarrow> \<not> (\<exists>f\<in>set files. \<exists>d.
              snd (getFileFormatDiff sys f (clang_format_exe settings)) = Inr (Some d)))))"
proof (intro conjI allI impI)
  fix evs0 settings evs1 files
  assume a: "parseSettings (env_POSIXLY_CORRECT sys) args = Some (evs0, Inr settings) \<and>
      discover sys (inputs settings) [] evs0 = Some (evs1, Inr files) \<and>
      (\<forall>f\<in>set files. \<exists>v. snd (getFileFormatDiff sys f (clang_format_exe settings)) = Inr v)"
  then have "\<forall>f\<in>set files. \<exists>v. snd (getFileFormatDiff sys f (clang_format_exe settings)) = Inr v"
    by blast
  from check_files_returns[OF this, of False evs1]
  obtain evs' where "check_files sys (clang_format_exe settings) files False evs1 =
      (evs', Inr (\<exists>f\<in>set files. \<exists>d. snd (getFileFormatDiff sys f (clang_format_exe settings)) = Inr (Some d)))"
    by auto
  with a show "\<exists>evs c. main sys args = Some (evs, ExitCode c) \<and>
         (c = 2 \<longleftrightarrow> (\<exists>f\<in>set files. \<exists>d.
              snd (getFileFormatDiff sys f (clang_format_exe settings)) = Inr (Some d))) \<and>
         (c = 0 \<longleftrightarrow> \<not> (\<exists>f\<in>set files. \<exists>d.
              snd (getFileFormatDiff sys f (clang_format_exe settings)) = Inr (Some d)))"
    by (simp add: main_def)
next
  fix evs c
  assume m: "main sys args = Some (evs, ExitCode c) \<and> c \<noteq> 1"
  obtain evs0 r where p: "parseSettings (env_POSIXLY_CORRECT sys) args = Some (evs0, r)"
    using parseSettings_total by blast
  show "\<exists>evs0 settings evs1 files.
         parseSettings (env_POSIXLY_CORRECT sys) args = Some (evs0, Inr settings) \<and>
         discover sys (inputs settings) [] evs0 = Some (evs1, Inr files) \<and>
         (c = 2 \<longleftrightarrow> (\<exists>f\<in>set files. \<exists>d.
              snd (getFileFormatDiff sys f (clang_format_exe settings)) = Inr (Some d))) \<and>
         (c = 0 \<longleftrightarrow> \<not> (\<exists>f\<in>set files. \<exists>d.
              snd (getFileFormatDiff sys f (clang_format_exe settings)) = Inr (Some d)))"
  proof (cases r)
    case (Inl n)
    with p parseSettings_exits[of "env_POSIXLY_CORRECT sys" args evs0 n]
    have "main sys args = Some (evs0, ExitCode 1)"
      by (simp add: main_def)
    with m show ?thesis by simp
  next
    case (Inr settings)
    show ?thesis
    proof (cases "discover sys (inputs settings) [] evs0")
      case None
      with p Inr m show ?thesis by (simp add: main_def)
    next
      case (Some df)
      obtain evs1 found where df: "df = (evs1, found)" by (cases df)
      show ?thesis
      proof (cases found)
        case (Inl err)
        with p \<open>r = Inr settings\<close> Some df m show ?thesis by (simp add: main_def)
      next
        case found: (Inr files)
        obtain evs2 res where
          c: "check_files sys (clang_format_exe settings) files False evs1 = (evs2, res)"
          by (cases "check_files sys (clang_format_exe settings) files False evs1")
        show ?thesis
        proof (cases res)
          case (Inl err)
          with p \<open>r = Inr settings\<close> Some df found c m show ?thesis by (simp add: main_def)
        next
          case (Inr b)
          from check_files_flag[OF c[unfolded Inr]]
          have b: "b = (\<exists>f\<in>set files. \<exists>d.
                snd (getFileFormatDiff sys f (clang_format_exe settings)) = Inr (Some d))" by simp
          from p \<open>r = Inr settings\<close> Some df found c Inr m have "c = (if b then 2 else 0)"
            by (simp add: main_def)
          with p \<open>r = Inr settings\<close> Some df found b show ?thesis by auto
        qed
      qed
    qed
  qed
qed

theorem main_exit_code_witness:
  "\<exists>evs. main sys0 [''prog'', ''src''] = Some (evs, ExitCode 2)"
proof -
  have e: "env_POSIXLY_CORRECT sys0 = False" by (simp add: sys0_def)
  have "\<forall>f\<in>set [''src/b.h'', ''src/d/e.cpp'', ''src/a.cpp''].
          \<exists>v. snd (getFileFormatDiff sys0 f (clang_format_exe \<lparr>clang_format_exe = ''clang-format'', inputs = [''src'']\<rparr>)) = Inr v"
    by (simp add: diff_a diff_b diff_e)
  with main_exit_code [of sys0 "[''prog'', ''src'']", THEN conjunct1, rule_format,
      of "[]" "\<lparr>clang_format_exe = ''clang-format'', inputs = [''src'']\<rparr>" _
         "[''src/b.h'', ''src/d/e.cpp'', ''src/a.cpp'']"]
    parse_src discover_src
  show ?thesis unfolding e by (auto simp: diff_a diff_b diff_e)
qed

text \<open>
  Not every run ends with 0 or 2. With the inputs \<open>src\<close> and \<open>ghost.cpp\<close> (which does not
  exist), \<open>b.h\<close> gets a verdict, and the run then ends in \<^verbatim>\<open>std::terminate\<close> on
  the file that cannot be opened: a verdict, and no exit code 2. With the input \<open>c\<close>, a
  directory that holds a link to itself, the run ends in \<^verbatim>\<open>std::terminate\<close> during
  discovery. With \<^verbatim>\<open>--bogus\<close> no file is discovered and the exit code is 1.
\<close>

lemma parse_src_ghost:
  "map_option snd (parseSettings False [''prog'', ''src'', ''ghost.cpp'']) =
     Some (Inr \<lparr>clang_format_exe = ''clang-format'', inputs = [''src'', ''ghost.cpp'']\<rparr>)"
  by code_simp

lemma discover_src_ghost:
  "map_option snd (discover sys0 [''src'', ''ghost.cpp''] [] []) =
     Some (Inr [''src/b.h'', ''src/d/e.cpp'', ''src/a.cpp'', ''ghost.cpp''])"
  by code_simp

lemma main_src_ghost:
  "map_option snd (main sys0 [''prog'', ''src'', ''ghost.cpp'']) =
     Some (Terminate (RuntimeError ''Unable to open src file ghost.cpp''))"
  by code_simp

lemma main_loop:
  "map_option snd (main sys1 [''prog'', ''c'']) =
     Some (Terminate (FilesystemError ''status: Too many levels of symbolic links [c/loop.h]''))"
  by code_simp

theorem main_exit_code_counterexample:
  "map_option snd (parseSettings False [''prog'', ''src'', ''ghost.cpp'']) =
     Some (Inr \<lparr>clang_format_exe = ''clang-format'', inputs = [''src'', ''ghost.cpp'']\<rparr>) \<and>
   map_option snd (discover sys0 [''src'', ''ghost.cpp''] [] []) =
     Some (Inr [''src/b.h'', ''src/d/e.cpp'', ''src/a.cpp'', ''ghost.cpp'']) \<and>
   snd (getFileFormatDiff sys0 ''src/b.h'' ''clang-format'') =
     Inr (Some ''src/b.h changes when formatted.'') \<and>
   map_option snd (main sys0 [''prog'', ''src'', ''ghost.cpp'']) =
     Some (Terminate (RuntimeError ''Unable to open src file ghost.cpp'')) \<and>
   map_option snd (main sys1 [''prog'', ''c'']) =
     Some (Terminate (FilesystemError ''status: Too many levels of symbolic links [c/loop.h]'')) \<and>
   map_option snd (main sys0 [''prog'', ''--bogus'']) = Some (ExitCode 1)"
  using parse_src_ghost discover_src_ghost main_src_ghost main_loop main_bogus diff_b
  by (intro conjI) simp_all

end
